theory Spec2Isabelle
  imports Main
begin

section \<open>Strings and thrown values\<close>

text \<open>
  JavaScript strings are sequences of UTF-16 code units. A \<^typ>\<open>char\<close> stands for a code
  unit below 256 (the Latin-1 range); the fixed texts of the program are all ASCII.
\<close>

definition digit_char :: "nat \<Rightarrow> char" where
  "digit_char d = char_of (48 + d)"

text \<open>The decimal text of a number, as a template literal prints \<open>files.length\<close>,
  \<open>i + 1\<close> and \<open>Date.now()\<close>.\<close>

function string_of_nat :: "nat \<Rightarrow> string" where
  "string_of_nat n =
     (if n < 10 then [digit_char n]
      else string_of_nat (n div 10) @ [digit_char (n mod 10)])"
  by pat_completeness auto
termination
  by (relation "measure (\<lambda>n. n)") auto

declare string_of_nat.simps [simp del]

text \<open>\<open>String.prototype.toLowerCase\<close> on code units below 256: A-Z and the Latin-1
  capitals 0xC0-0xDE (but not the multiplication sign 0xD7) move up by 32.\<close>

definition lower_char :: "char \<Rightarrow> char" where
  "lower_char c =
     (let k = (of_char c :: nat) in
      if (65 \<le> k \<and> k \<le> 90) \<or> (192 \<le> k \<and> k \<le> 222 \<and> k \<noteq> 215)
      then char_of (k + 32) else c)"

definition toLowerCase :: "string \<Rightarrow> string" where
  "toLowerCase s = map lower_char s"

definition startsWith :: "string \<Rightarrow> string \<Rightarrow> bool" where
  "startsWith s sub = (take (length sub) s = sub)"

text \<open>\<open>String.prototype.includes\<close>: the argument occurs somewhere as a contiguous run.\<close>

fun includes_str :: "string \<Rightarrow> string \<Rightarrow> bool" where
  "includes_str [] sub = (sub = [])"
| "includes_str (c # cs) sub = (startsWith (c # cs) sub \<or> includes_str cs sub)"

text \<open>
  A value that a collaborator throws or rejects with. \<open>ErrorObj m\<close> is an instance of
  \<open>Error\<close> with message \<open>m\<close>; \<open>Thrown t str\<close> is any other value, of truthiness \<open>t\<close>
  and with \<open>String(err) = str\<close>.
\<close>

datatype js_exn = ErrorObj string | Thrown bool string

fun truthy :: "js_exn \<Rightarrow> bool" where
  "truthy (ErrorObj m) = True"
| "truthy (Thrown t str) = t"

text \<open>\<open>err instanceof Error ? err.message : String(err)\<close>\<close>

fun message_of :: "js_exn \<Rightarrow> string" where
  "message_of (ErrorObj m) = m"
| "message_of (Thrown t str) = str"


section \<open>The session state of \<open>App\<close>\<close>

datatype AppStatus = Initializing | Welcome | Uploading | Chatting | Error

datatype Role = User | Model

record File =
  name :: string
  content :: string

text \<open>A grounding chunk is read only through \<open>retrievedContext?.text\<close>.\<close>

type_synonym grounding_chunk = "string option"

record ChatMessage =
  role :: Role
  parts :: "string list"
  groundingChunks :: "grounding_chunk list option"

record UploadProgress =
  current :: nat
  total :: nat
  message :: "string option"
  fileName :: "string option"

text \<open>One field per \<open>useState\<close> cell of \<open>App\<close>, and the \<open>useRef\<close> cell
  \<open>ragStoreNameRef\<close>.\<close>

record AppState =
  status :: AppStatus
  isApiKeySelected :: bool
  apiKeyError :: "string option"
  error :: "string option"
  uploadProgress :: "UploadProgress option"
  activeRagStoreName :: "string option"
  chatHistory :: "ChatMessage list"
  isQueryLoading :: bool
  documentName :: string
  files :: "File list"
  ragStoreNameRef :: "string option"

definition initial_state :: AppState where
  "initial_state =
     \<lparr>status = Initializing, isApiKeySelected = False, apiKeyError = None, error = None,
      uploadProgress = None, activeRagStoreName = None, chatHistory = [],
      isQueryLoading = False, documentName = [], files = [], ragStoreNameRef = None\<rparr>"

text \<open>What a handler does besides changing the state: the calls it makes to
  \<open>geminiService\<close> and to the host, and every value it passes to
  \<open>setUploadProgress\<close>, in order.\<close>

datatype effect =
    CallInitialize
  | CallCreateRagStore string
  | CallUploadToRagStore string File
  | CallFileSearch string string
  | CallDeleteRagStore string
  | SetUploadProgress "UploadProgress option"
  | Alert string

text \<open>The outcome of running a handler: the state it leaves, the value it throws (its
  promise rejects with) if any, and its effects.\<close>

record Run =
  st :: AppState
  thrown :: "js_exn option"
  effects :: "effect list"

text \<open>A store name is tested by truthiness (\<open>if (activeRagStoreName)\<close>): \<open>null\<close> and the
  empty string both count as no store.\<close>

fun active_name :: "string option \<Rightarrow> string option" where
  "active_name None = None"
| "active_name (Some n) = (if n = [] then None else Some n)"


section \<open>The credential check\<close>

text \<open>The host capability \<open>window.aistudio\<close>. Each member may be missing; when present it
  is given by the outcome of calling it.\<close>

record AIStudio =
  openSelectKey :: "js_exn option option"
  hasSelectedApiKey :: "(js_exn + bool) option"

type_synonym Window = "AIStudio option"

text \<open>\<open>window.aistudio?.hasSelectedApiKey\<close>\<close>

definition lookup_hasSelectedApiKey :: "Window \<Rightarrow> (js_exn + bool) option" where
  "lookup_hasSelectedApiKey w = (case w of None \<Rightarrow> None | Some a \<Rightarrow> hasSelectedApiKey a)"

definition lookup_openSelectKey :: "Window \<Rightarrow> js_exn option option" where
  "lookup_openSelectKey w = (case w of None \<Rightarrow> None | Some a \<Rightarrow> openSelectKey a)"

definition checkApiKey :: "Window \<Rightarrow> AppState \<Rightarrow> AppState" where
  "checkApiKey w s =
     (case lookup_hasSelectedApiKey w of
        None \<Rightarrow> s
      | Some (Inr hasKey) \<Rightarrow> s\<lparr>isApiKeySelected := hasKey\<rparr>
      | Some (Inl e) \<Rightarrow> s\<lparr>isApiKeySelected := False\<rparr>)"

definition handleSelectKey :: "Window \<Rightarrow> AppState \<Rightarrow> Run" where
  "handleSelectKey w s =
     (case lookup_openSelectKey w of
        Some None \<Rightarrow> \<lparr>st = checkApiKey w s, thrown = None, effects = []\<rparr>
      | Some (Some e) \<Rightarrow> \<lparr>st = s, thrown = None, effects = []\<rparr>
      | None \<Rightarrow>
          \<lparr>st = s, thrown = None,
           effects = [Alert ''API key selection is not available in this environment.'']\<rparr>)"


section \<open>Error display\<close>

definition handleError :: "string \<Rightarrow> js_exn \<Rightarrow> AppState \<Rightarrow> AppState" where
  "handleError msg err s =
     s\<lparr>error := Some (msg @ (if truthy err then '': '' @ message_of err else [])),
       status := Error\<rparr>"

definition clearError :: "AppState \<Rightarrow> AppState" where
  "clearError s = s\<lparr>error := None, status := Welcome\<rparr>"


section \<open>Indexing: \<open>handleUploadAndStartChat\<close>\<close>

text \<open>What the collaborators answer during one indexing attempt: the clock, then
  \<open>initialize\<close>, \<open>createRagStore\<close> and the \<open>i\<close>-th \<open>uploadToRagStore\<close>.\<close>

record IndexingEnv =
  now :: nat
  initialize_result :: "js_exn option"
  createRagStore_result :: "js_exn + string"
  uploadToRagStore_result :: "nat \<Rightarrow> js_exn option"

text \<open>The \<open>for\<close> loop over the files. \<open>n\<close> is \<open>files.length\<close>, \<open>i\<close> the index of the head
  of the remaining files, \<open>p\<close> the progress value last set (the \<open>prev\<close> of the functional
  update). It stops at the first upload that fails.\<close>

fun upload_loop ::
  "(nat \<Rightarrow> js_exn option) \<Rightarrow> string \<Rightarrow> nat \<Rightarrow> nat \<Rightarrow> File list \<Rightarrow> UploadProgress
     \<Rightarrow> UploadProgress \<times> js_exn option \<times> effect list" where
  "upload_loop up store n i [] p = (p, None, [])"
| "upload_loop up store n i (f # fs) p =
     (let p' = p\<lparr>current := i + 1,
                 message := Some ''Reading document...'',
                 fileName := Some (''('' @ string_of_nat (i + 1) @ ''/'' @ string_of_nat n
                                   @ '') '' @ name f)\<rparr>
      in case up i of
           Some err \<Rightarrow> (p', Some err, [SetUploadProgress (Some p'), CallUploadToRagStore store f])
         | None \<Rightarrow>
             (case upload_loop up store n (i + 1) fs p' of
                (q, r, es) \<Rightarrow>
                  (q, r, SetUploadProgress (Some p') # CallUploadToRagStore store f # es)))"

definition computeDocName :: "File list \<Rightarrow> string" where
  "computeDocName fs =
     (if length fs = 1 then name (fs ! 0)
      else if length fs = 2 then name (fs ! 0) @ '' & '' @ name (fs ! 1)
      else string_of_nat (length fs) @ '' documents'')"

definition isCredentialError :: "js_exn \<Rightarrow> bool" where
  "isCredentialError err =
     (let errorMessage = toLowerCase (message_of err)
      in includes_str errorMessage ''api key not valid''
         \<or> includes_str errorMessage ''requested entity was not found'')"

text \<open>The \<open>catch\<close> block of the indexing attempt (the rethrow is in the caller below).\<close>

definition indexing_catch :: "js_exn \<Rightarrow> AppState \<Rightarrow> AppState" where
  "indexing_catch err s =
     (if isCredentialError err
      then s\<lparr>apiKeyError :=
               Some ''The selected API key is invalid. Please select a different one and try again.'',
             isApiKeySelected := False,
             status := Welcome\<rparr>
      else handleError ''Failed to start chat session'' err s)"

text \<open>The \<open>try\<close> block: the state it leaves, what it throws, its effects.\<close>

definition indexing_try :: "IndexingEnv \<Rightarrow> nat \<Rightarrow> AppState \<Rightarrow> AppState \<times> js_exn option \<times> effect list" where
  "indexing_try env totalSteps s =
     (let storeName = ''chat-session-'' @ string_of_nat (now env);
          p0 = \<lparr>current = 0, total = totalSteps, message = Some ''Creating index...'',
                fileName = None\<rparr>
      in case createRagStore_result env of
           Inl err \<Rightarrow>
             (s\<lparr>uploadProgress := Some p0\<rparr>, Some err,
              [SetUploadProgress (Some p0), CallCreateRagStore storeName])
         | Inr ragStoreName \<Rightarrow>
             (let p1 = \<lparr>current = 1, total = totalSteps, message = Some ''Processing...'',
                        fileName = None\<rparr>
              in case upload_loop (uploadToRagStore_result env) ragStoreName
                        (length (files s)) 0 (files s) p1 of
                   (q, Some err, es) \<Rightarrow>
                     (s\<lparr>uploadProgress := Some q\<rparr>, Some err,
                      [SetUploadProgress (Some p0), CallCreateRagStore storeName,
                       SetUploadProgress (Some p1)] @ es)
                 | (q, None, es) \<Rightarrow>
                     (let p2 = \<lparr>current = totalSteps, total = totalSteps,
                                message = Some ''Ready!'', fileName = Some []\<rparr>
                      in (s\<lparr>uploadProgress := Some p2,
                            documentName := computeDocName (files s),
                            activeRagStoreName := Some ragStoreName,
                            chatHistory := [],
                            status := Chatting,
                            files := []\<rparr>,
                          None,
                          [SetUploadProgress (Some p0), CallCreateRagStore storeName,
                           SetUploadProgress (Some p1)] @ es
                          @ [SetUploadProgress (Some p2)]))))"

definition handleUploadAndStartChat :: "IndexingEnv \<Rightarrow> AppState \<Rightarrow> Run" where
  "handleUploadAndStartChat env s =
     (if \<not> isApiKeySelected s then
        \<lparr>st = s\<lparr>apiKeyError := Some ''Please select your Gemini API Key first.''\<rparr>,
         thrown = Some (ErrorObj ''API Key is required.''),
         effects = []\<rparr>
      else if length (files s) = 0 then \<lparr>st = s, thrown = None, effects = []\<rparr>
      else
        (let s1 = s\<lparr>apiKeyError := None\<rparr>
         in case initialize_result env of
              Some err \<Rightarrow>
                \<lparr>st = handleError ''Initialization failed. Please select a valid API Key.'' err s1,
                 thrown = Some err,
                 effects = [CallInitialize]\<rparr>
            | None \<Rightarrow>
                (let s2 = s1\<lparr>status := Uploading\<rparr>;
                     totalSteps = length (files s) + 1
                 in case indexing_try env totalSteps s2 of
                      (s3, None, es) \<Rightarrow>
                        \<lparr>st = s3\<lparr>uploadProgress := None\<rparr>, thrown = None,
                         effects = CallInitialize # es @ [SetUploadProgress None]\<rparr>
                    | (s3, Some err, es) \<Rightarrow>
                        \<lparr>st = (indexing_catch err s3)\<lparr>uploadProgress := None\<rparr>,
                         thrown = Some err,
                         effects = CallInitialize # es @ [SetUploadProgress None]\<rparr>)))"

text \<open>\<open>handleConfirmUpload\<close> of the welcome screen: it awaits \<open>onUpload\<close> inside a
  \<open>try\<close> and only logs what is thrown.\<close>

definition handleConfirmUpload :: "IndexingEnv \<Rightarrow> AppState \<Rightarrow> Run" where
  "handleConfirmUpload env s = (handleUploadAndStartChat env s)\<lparr>thrown := None\<rparr>"


section \<open>Chat turns, new chat and page unload\<close>

record SearchResult =
  result_text :: string
  result_groundingChunks :: "grounding_chunk list option"

text \<open>The fixed reply appended when the query fails.\<close>

definition apology :: string where
  "apology = ''Sorry, I encountered an error. Please try again.''"

definition handleSendMessage :: "(js_exn + SearchResult) \<Rightarrow> string \<Rightarrow> AppState \<Rightarrow> Run" where
  "handleSendMessage fileSearch_result msg s =
     (case active_name (activeRagStoreName s) of
        None \<Rightarrow> \<lparr>st = s, thrown = None, effects = []\<rparr>
      | Some store \<Rightarrow>
          (let userMessage = \<lparr>role = User, parts = [msg], groundingChunks = None\<rparr>;
               s1 = s\<lparr>chatHistory := chatHistory s @ [userMessage], isQueryLoading := True\<rparr>;
               s2 = (case fileSearch_result of
                       Inr result \<Rightarrow>
                         s1\<lparr>chatHistory := chatHistory s1 @
                              [\<lparr>role = Model, parts = [result_text result],
                                groundingChunks = result_groundingChunks result\<rparr>]\<rparr>
                     | Inl err \<Rightarrow>
                         handleError ''Failed to get response'' err
                           (s1\<lparr>chatHistory := chatHistory s1 @
                                [\<lparr>role = Model, parts = [apology], groundingChunks = None\<rparr>]\<rparr>))
           in \<lparr>st = s2\<lparr>isQueryLoading := False\<rparr>, thrown = None,
               effects = [CallFileSearch store msg]\<rparr>))"

text \<open>\<open>deleteRagStore\<close> is not awaited and its rejection is consumed by \<open>.catch\<close>, which
  only logs: the outcome \<open>del\<close> of the deletion reaches neither the state nor the caller.\<close>

definition handleEndChat :: "js_exn option \<Rightarrow> AppState \<Rightarrow> Run" where
  "handleEndChat del s =
     \<lparr>st = s\<lparr>activeRagStoreName := None, chatHistory := [], documentName := [],
             files := [], status := Welcome\<rparr>,
      thrown = None,
      effects = (case active_name (activeRagStoreName s) of
                   None \<Rightarrow> []
                 | Some n \<Rightarrow> [CallDeleteRagStore n])\<rparr>"

text \<open>The \<open>beforeunload\<close> listener reads the ref, not the state cell.\<close>

definition handleUnload :: "js_exn option \<Rightarrow> AppState \<Rightarrow> Run" where
  "handleUnload del s =
     \<lparr>st = s, thrown = None,
      effects = (case active_name (ragStoreNameRef s) of
                   None \<Rightarrow> []
                 | Some n \<Rightarrow> [CallDeleteRagStore n])\<rparr>"


section \<open>Events\<close>

text \<open>The effect that runs after a render in which \<open>activeRagStoreName\<close> changed: it
  copies the state cell into the ref.\<close>

definition commit :: "AppState \<Rightarrow> AppState" where
  "commit s = s\<lparr>ragStoreNameRef := activeRagStoreName s\<rparr>"

text \<open>What can happen to the page: the mount effects, a visibility or focus event, the
  buttons and inputs of the welcome, error and chat screens, and \<open>beforeunload\<close>. Each
  event carries what the collaborators answer while it is handled.\<close>

datatype event =
    Mount Window
  | VisibilityOrFocus Window
  | SelectKey Window
  | AddFiles "File list"
  | RemoveFile nat
  | ClearFiles
  | ConfirmUpload IndexingEnv
  | ClearError
  | SendMessage "js_exn + SearchResult" string
  | EndChat "js_exn option"
  | Unload "js_exn option"

definition quiet :: "AppState \<Rightarrow> Run" where
  "quiet s = \<lparr>st = s, thrown = None, effects = []\<rparr>"

text \<open>\<open>prevFiles.filter((_, index) => index !== indexToRemove)\<close>\<close>

definition removeAt :: "nat \<Rightarrow> 'a list \<Rightarrow> 'a list" where
  "removeAt i xs = map snd (filter (\<lambda>(k, x). k \<noteq> i) (zip [0..<length xs] xs))"

fun dispatch :: "event \<Rightarrow> AppState \<Rightarrow> Run" where
  "dispatch (Mount w) s = quiet ((checkApiKey w s)\<lparr>status := Welcome\<rparr>)"
| "dispatch (VisibilityOrFocus w) s = quiet (checkApiKey w s)"
| "dispatch (SelectKey w) s = handleSelectKey w s"
| "dispatch (AddFiles fs) s = quiet (s\<lparr>files := files s @ fs\<rparr>)"
| "dispatch (RemoveFile i) s = quiet (s\<lparr>files := removeAt i (files s)\<rparr>)"
| "dispatch ClearFiles s = quiet (s\<lparr>files := []\<rparr>)"
| "dispatch (ConfirmUpload env) s = handleConfirmUpload env s"
| "dispatch ClearError s = quiet (clearError s)"
| "dispatch (SendMessage r msg) s = handleSendMessage r msg s"
| "dispatch (EndChat del) s = handleEndChat del s"
| "dispatch (Unload del) s = handleUnload del s"

text \<open>One event, handled to the end and followed by the render's effect.\<close>

definition step :: "event \<Rightarrow> AppState \<Rightarrow> AppState" where
  "step ev s = commit (st (dispatch ev s))"

text \<open>A sequence of events, with the effects of all of them in order.\<close>

fun run_events :: "event list \<Rightarrow> AppState \<Rightarrow> AppState \<times> effect list" where
  "run_events [] s = (s, [])"
| "run_events (ev # evs) s =
     (case run_events evs (step ev s) of
        (s', es) \<Rightarrow> (s', effects (dispatch ev s) @ es))"

text \<open>The states the page can be in between two events.\<close>

inductive reachable :: "AppState \<Rightarrow> bool" where
  reachable_init: "reachable initial_state"
| reachable_step: "reachable s \<Longrightarrow> reachable (step ev s)"




fun is_delete :: "effect \<Rightarrow> bool" where
  "is_delete (CallDeleteRagStore n) = True"
| "is_delete _ = False"

text \<open>Reading a decimal text back into a number; used only to state that
  \<open>string_of_nat\<close> prints the number it is given.\<close>

definition nat_of_digits :: "string \<Rightarrow> nat" where
  "nat_of_digits ds = foldl (\<lambda>a c. 10 * a + (of_char c - 48)) 0 ds"

section \<open>The markdown renderer of the chat screen\<close>

text \<open>
  Character classes of the regular expressions, on code units below 256. \<open>\s\<close> (and
  the characters \<open>trim\<close> strips) are TAB, LF, VT, FF, CR, space and the no-break space;
  \<open>.\<close> is any character but the line terminators LF and CR; \<open>\d\<close> is 0-9.
\<close>

definition is_space :: "char \<Rightarrow> bool" where
  "is_space c = (c \<in> set [CHR 0x09, CHR 0x0A, CHR 0x0B, CHR 0x0C, CHR 0x0D, CHR 0x20, CHR 0xA0])"

definition is_line_terminator :: "char \<Rightarrow> bool" where
  "is_line_terminator c = (c = CHR 0x0A \<or> c = CHR 0x0D)"

definition is_digit :: "char \<Rightarrow> bool" where
  "is_digit c = (c \<in> set ''0123456789'')"

text \<open>\<open>text.split('\n')\<close>: the pieces between line feeds; always at least one piece.\<close>

fun split_lines :: "string \<Rightarrow> string list" where
  "split_lines [] = [[]]"
| "split_lines (c # cs) =
     (if c = CHR 0x0A then [] # split_lines cs
      else (case split_lines cs of
              [] \<Rightarrow> [[c]]
            | l # ls \<Rightarrow> (c # l) # ls))"

text \<open>
  The lazy group followed by a closing marker, \<open>(.*?)d\<close>, tried at the head of \<open>s\<close>: the
  shortest run of non-terminator characters after which \<open>d\<close> stands. The result is the
  captured run and what follows the marker.
\<close>

fun lazy_until :: "string \<Rightarrow> string \<Rightarrow> (string \<times> string) option" where
  "lazy_until d [] = (if d = [] then Some ([], []) else None)"
| "lazy_until d (c # cs) =
     (if startsWith (c # cs) d then Some ([], drop (length d) (c # cs))
      else if is_line_terminator c then None
      else (case lazy_until d cs of
              None \<Rightarrow> None
            | Some (x, r) \<Rightarrow> Some (c # x, r)))"

text \<open>\<open>d(.*?)d\<close> tried at the head of \<open>s\<close>.\<close>

definition delimited :: "string \<Rightarrow> string \<Rightarrow> (string \<times> string) option" where
  "delimited d s = (if startsWith s d then lazy_until d (drop (length d) s) else None)"

text \<open>The three inline patterns, in the order the renderer applies them.\<close>

datatype inline_pattern = Bold | Emphasis | InlineCode

text \<open>
  One match attempt at the head of \<open>s\<close>: the text of the capture group that took part
  (the other group of an alternation is undefined and prints as nothing in \<open>$1$2\<close>) and
  the rest of the string after the match.
  \<^item> bold: \<open>\*\*(.*?)\*\*|__(.*?)__\<close>
  \<^item> emphasis: \<open>\*(.*?)\*|_(.*?)_\<close>
  \<^item> inline code: a backquote, \<open>([^`]+)\<close>, a backquote
\<close>

fun match_at :: "inline_pattern \<Rightarrow> string \<Rightarrow> (string \<times> string) option" where
  "match_at Bold s =
     (case delimited ''**'' s of Some m \<Rightarrow> Some m | None \<Rightarrow> delimited ''__'' s)"
| "match_at Emphasis s =
     (case delimited ''*'' s of Some m \<Rightarrow> Some m | None \<Rightarrow> delimited ''_'' s)"
| "match_at InlineCode s =
     (case s of
        [] \<Rightarrow> None
      | c # cs \<Rightarrow>
          if c = CHR 0x60 then
            (let body = takeWhile (\<lambda>x. x \<noteq> CHR 0x60) cs;
                 after = dropWhile (\<lambda>x. x \<noteq> CHR 0x60) cs
             in if body \<noteq> [] \<and> after \<noteq> [] then Some (body, tl after) else None)
          else None)"

text \<open>The replacement text for a match with capture \<open>x\<close>.\<close>

fun replacement :: "inline_pattern \<Rightarrow> string \<Rightarrow> string" where
  "replacement Bold x = ''<strong>'' @ x @ ''</strong>''"
| "replacement Emphasis x = ''<em>'' @ x @ ''</em>''"
| "replacement InlineCode x =
     ''<code class='' @ [CHR 0x22]
     @ ''bg-gem-mist/50 px-1 py-0.5 rounded-sm font-mono text-sm text-gem-offwhite''
     @ [CHR 0x22] @ ''>'' @ x @ ''</code>''"

lemma lazy_until_shorter:
  "lazy_until d s = Some (x, r) \<Longrightarrow> length r \<le> length s"
proof (induction s arbitrary: x)
  case Nil
  then show ?case by (simp split: if_splits)
next
  case (Cons c cs)
  show ?case
  proof (cases "startsWith (c # cs) d")
    case True
    with Cons.prems show ?thesis by auto
  next
    case False
    with Cons.prems obtain y where "lazy_until d cs = Some (y, r)"
      by (auto split: if_splits option.splits)
    then have "length r \<le> length cs" by (rule Cons.IH)
    then show ?thesis by simp
  qed
qed

lemma delimited_shorter:
  "d \<noteq> [] \<Longrightarrow> delimited d s = Some (x, r) \<Longrightarrow> length r < length s"
proof -
  assume d: "d \<noteq> []" and m: "delimited d s = Some (x, r)"
  then have sw: "startsWith s d" and lu: "lazy_until d (drop (length d) s) = Some (x, r)"
    by (auto simp: delimited_def split: if_splits)
  from sw have "length (take (length d) s) = length d"
    by (simp add: startsWith_def)
  then have "length d \<le> length s" by simp
  moreover have "length r \<le> length s - length d"
    using lazy_until_shorter [OF lu] by simp
  ultimately show ?thesis using d by (cases d) auto
qed

lemma match_at_shorter:
  "match_at p s = Some (x, r) \<Longrightarrow> length r < length s"
proof (cases p)
  case Bold
  assume "match_at p s = Some (x, r)"
  with Bold have "delimited ''**'' s = Some (x, r) \<or> delimited ''__'' s = Some (x, r)"
    by (auto split: option.splits)
  then show ?thesis using delimited_shorter by fastforce
next
  case Emphasis
  assume "match_at p s = Some (x, r)"
  with Emphasis have "delimited ''*'' s = Some (x, r) \<or> delimited ''_'' s = Some (x, r)"
    by (auto split: option.splits)
  then show ?thesis using delimited_shorter by fastforce
next
  case InlineCode
  assume m: "match_at p s = Some (x, r)"
  with InlineCode obtain cs where s: "s = CHR 0x60 # cs"
    and r: "r = tl (dropWhile (\<lambda>x. x \<noteq> CHR 0x60) cs)"
    by (auto simp: Let_def split: list.splits if_splits)
  have "length (dropWhile (\<lambda>x. x \<noteq> CHR 0x60) cs) \<le> length cs"
    by (rule length_dropWhile_le)
  then show ?thesis unfolding s r by simp
qed

text \<open>
  \<open>line.replace(/.../g, template)\<close>: scan from the left; where the pattern matches, emit
  the replacement and go on after the match, otherwise copy one character and go on.
\<close>

function replace_global :: "inline_pattern \<Rightarrow> string \<Rightarrow> string" where
  "replace_global p [] = []"
| "replace_global p (c # cs) =
     (case match_at p (c # cs) of
        Some (x, r) \<Rightarrow> replacement p x @ replace_global p r
      | None \<Rightarrow> c # replace_global p cs)"
  by pat_completeness auto
termination
proof (relation "measure (\<lambda>(p, s). length s)")
  show "wf (measure (\<lambda>(p, s). length s))" by simp
next
  fix p c cs m x r
  assume "match_at p (c # cs) = Some m" and "(x, r) = m"
  then have "match_at p (c # cs) = Some (x, r)" by simp
  then have "length r < length (c # cs)" by (rule match_at_shorter)
  then show "((p, r), (p, c # cs)) \<in> measure (\<lambda>(p, s). length s)" by simp
next
  fix p c cs
  show "((p, cs), (p, c # cs)) \<in> measure (\<lambda>(p, s). length s)" by simp
qed

text \<open>The three substitutions of a line: bold, then emphasis, then inline code.\<close>

definition inline_subst :: "string \<Rightarrow> string" where
  "inline_subst rawLine =
     replace_global InlineCode (replace_global Emphasis (replace_global Bold rawLine))"

text \<open>What \<open>(.*)\<close> captures at the end of the list patterns: up to the first line
  terminator.\<close>

definition rest_of_line :: "string \<Rightarrow> string" where
  "rest_of_line s = takeWhile (\<lambda>c. \<not> is_line_terminator c) s"

text \<open>\<open>line.match(/^\s*\d+\.\s(.*)/)\<close>: the first group of the match, if it matches.\<close>

definition match_ol :: "string \<Rightarrow> string option" where
  "match_ol line =
     (let r1 = dropWhile is_space line;
          digits = takeWhile is_digit r1;
          r2 = dropWhile is_digit r1
      in if digits = [] then None
         else (case r2 of
                 dot # sp # r3 \<Rightarrow>
                   if dot = CHR ''.'' \<and> is_space sp then Some (rest_of_line r3) else None
               | _ \<Rightarrow> None))"

text \<open>\<open>line.match(/^\s*[\*\-]\s(.*)/)\<close>\<close>

definition match_ul :: "string \<Rightarrow> string option" where
  "match_ul line =
     (case dropWhile is_space line of
        mark # sp # r3 \<Rightarrow>
          if (mark = CHR ''*'' \<or> mark = CHR ''-'') \<and> is_space sp
          then Some (rest_of_line r3) else None
      | _ \<Rightarrow> None)"

text \<open>\<open>line.trim() === ''\<close>\<close>

definition is_blank :: "string \<Rightarrow> bool" where
  "is_blank line = list_all is_space line"

datatype ListType = UL | OL

fun tag_name :: "ListType \<Rightarrow> string" where
  "tag_name UL = ''ul''"
| "tag_name OL = ''ol''"

text \<open>The variables of the loop: \<open>html\<close>, \<open>listType\<close> and \<open>paraBuffer\<close>.\<close>

record RenderState =
  html :: string
  listType :: "ListType option"
  paraBuffer :: string

definition p_open :: string where
  "p_open = ''<p class='' @ [CHR 0x22] @ ''my-2'' @ [CHR 0x22] @ ''>''"

definition ol_open :: string where
  "ol_open = ''<ol class='' @ [CHR 0x22] @ ''list-decimal list-inside my-2 pl-5 space-y-1''
             @ [CHR 0x22] @ ''>''"

definition ul_open :: string where
  "ul_open = ''<ul class='' @ [CHR 0x22] @ ''list-disc list-inside my-2 pl-5 space-y-1''
             @ [CHR 0x22] @ ''>''"

definition flushPara :: "RenderState \<Rightarrow> RenderState" where
  "flushPara s =
     (if paraBuffer s \<noteq> []
      then s\<lparr>html := html s @ p_open @ paraBuffer s @ ''</p>'', paraBuffer := []\<rparr>
      else s)"

definition flushList :: "RenderState \<Rightarrow> RenderState" where
  "flushList s =
     (case listType s of
        Some t \<Rightarrow> s\<lparr>html := html s @ ''</'' @ tag_name t @ ''>'', listType := None\<rparr>
      | None \<Rightarrow> s)"

text \<open>The body of the \<open>for\<close> loop, for one raw line.\<close>

definition processLine :: "RenderState \<Rightarrow> string \<Rightarrow> RenderState" where
  "processLine s rawLine =
     (let line = inline_subst rawLine
      in case match_ol line of
           Some item \<Rightarrow>
             (let s1 = flushPara s;
                  s2 = (if listType s1 \<noteq> Some OL
                        then (let s' = flushList s1
                              in s'\<lparr>html := html s' @ ol_open, listType := Some OL\<rparr>)
                        else s1)
              in s2\<lparr>html := html s2 @ ''<li>'' @ item @ ''</li>''\<rparr>)
         | None \<Rightarrow>
             (case match_ul line of
                Some item \<Rightarrow>
                  (let s1 = flushPara s;
                       s2 = (if listType s1 \<noteq> Some UL
                             then (let s' = flushList s1
                                   in s'\<lparr>html := html s' @ ul_open, listType := Some UL\<rparr>)
                             else s1)
                   in s2\<lparr>html := html s2 @ ''<li>'' @ item @ ''</li>''\<rparr>)
              | None \<Rightarrow>
                  (let s1 = flushList s
                   in if is_blank line then flushPara s1
                      else s1\<lparr>paraBuffer :=
                                paraBuffer s1 @ (if paraBuffer s1 \<noteq> [] then ''<br/>'' else [])
                                @ line\<rparr>)))"

definition render_start :: RenderState where
  "render_start = \<lparr>html = [], listType = None, paraBuffer = []\<rparr>"

text \<open>\<open>renderMarkdown\<close>; the result is the \<open>__html\<close> string.\<close>

definition renderMarkdown :: "string \<Rightarrow> string" where
  "renderMarkdown text =
     (if text = [] then []
      else html (flushList (flushPara (foldl processLine render_start (split_lines text)))))"

text \<open>Lines joined by a separator; used to state what a paragraph holds.\<close>

fun join_with :: "string \<Rightarrow> string list \<Rightarrow> string" where
  "join_with sep [] = []"
| "join_with sep [l] = l"
| "join_with sep (l # m # ls) = l @ sep @ join_with sep (m # ls)"

text \<open>A character that takes part in an inline pattern.\<close>

definition is_marker :: "char \<Rightarrow> bool" where
  "is_marker c = (c = CHR ''*'' \<or> c = CHR ''_'' \<or> c = CHR 0x60)"

text \<open>A line of plain running text: no marker character, not blank, and not a list item
  under either list pattern.\<close>

definition paragraph_line :: "string \<Rightarrow> bool" where
  "paragraph_line l \<longleftrightarrow>
     (\<forall>c\<in>set l. \<not> is_marker c) \<and> \<not> is_blank l \<and> match_ol l = None \<and> match_ul l = None"


text \<open>Text in which no inline pattern can match, and which \<open>.\<close> can run over.\<close>

definition plain_text :: "string \<Rightarrow> bool" where
  "plain_text x \<longleftrightarrow> (\<forall>c\<in>set x. \<not> is_marker c)"


text \<open>The blocks of a text made of running-text lines and blank lines only: the maximal
  runs of consecutive non-blank lines. \<open>cur\<close> is the run being collected.\<close>

fun para_runs :: "string list \<Rightarrow> string list \<Rightarrow> string list list" where
  "para_runs cur [] = (if cur = [] then [] else [cur])"
| "para_runs cur (l # ls) =
     (if is_blank l then (if cur = [] then [] else [cur]) @ para_runs [] ls
      else para_runs (cur @ [l]) ls)"

text \<open>The paragraph block for a run of lines.\<close>

definition para_block :: "string list \<Rightarrow> string" where
  "para_block run = p_open @ join_with ''<br/>'' run @ ''</p>''"

section \<open>The credential check: properties\<close>

text \<open>
  C9. When the host capability \<open>hasSelectedApiKey\<close> is absent (no \<open>window.aistudio\<close>, or
  one without that member), \<open>checkApiKey\<close> leaves the whole state as it was, the
  credential flag included. In every case it touches no field but the flag, and it turns
  a set flag off only when the capability is present and answers \<open>false\<close> or throws.
\<close>

theorem checkApiKey_absent_capability:
  "checkApiKey None s = s
   \<and> checkApiKey (Some \<lparr>openSelectKey = k, hasSelectedApiKey = None\<rparr>) s = s
   \<and> (\<exists>b. checkApiKey w s = s\<lparr>isApiKeySelected := b\<rparr>)
   \<and> (isApiKeySelected s \<and> \<not> isApiKeySelected (checkApiKey w s)
        \<longrightarrow> (\<exists>a. w = Some a
                 \<and> (hasSelectedApiKey a = Some (Inr False)
                    \<or> (\<exists>e. hasSelectedApiKey a = Some (Inl e)))))"
proof -
  have absent: "checkApiKey None s = s"
    by (simp add: checkApiKey_def lookup_hasSelectedApiKey_def)
  have member_absent:
    "checkApiKey (Some \<lparr>openSelectKey = k, hasSelectedApiKey = None\<rparr>) s = s"
    by (simp add: checkApiKey_def lookup_hasSelectedApiKey_def)
  have frame: "\<exists>b. checkApiKey w s = s\<lparr>isApiKeySelected := b\<rparr>"
  proof (cases "lookup_hasSelectedApiKey w")
    case None
    then have "checkApiKey w s = s\<lparr>isApiKeySelected := isApiKeySelected s\<rparr>"
      by (simp add: checkApiKey_def)
    then show ?thesis ..
  next
    case (Some r)
    then show ?thesis
      by (cases r) (auto simp: checkApiKey_def)
  qed
  have reset: "isApiKeySelected s \<and> \<not> isApiKeySelected (checkApiKey w s)
        \<longrightarrow> (\<exists>a. w = Some a
                 \<and> (hasSelectedApiKey a = Some (Inr False)
                    \<or> (\<exists>e. hasSelectedApiKey a = Some (Inl e))))"
    by (auto simp: checkApiKey_def lookup_hasSelectedApiKey_def
             split: option.splits sum.splits)
  from absent member_absent frame reset show ?thesis by blast
qed

theorem checkApiKey_absent_capability_witness:
  "isApiKeySelected (checkApiKey None (initial_state\<lparr>isApiKeySelected := True\<rparr>))
   \<and> \<not> isApiKeySelected
         (checkApiKey (Some \<lparr>openSelectKey = None, hasSelectedApiKey = Some (Inr False)\<rparr>)
            (initial_state\<lparr>isApiKeySelected := True\<rparr>))"
  using checkApiKey_absent_capability
    [of "initial_state\<lparr>isApiKeySelected := True\<rparr>" None
        "Some \<lparr>openSelectKey = None, hasSelectedApiKey = Some (Inr False)\<rparr>"]
  by (simp add: checkApiKey_def lookup_hasSelectedApiKey_def initial_state_def)

section \<open>Indexing: properties\<close>

text \<open>\<open>includes_str\<close> finds exactly the contiguous occurrences.\<close>

lemma startsWith_iff: "startsWith s sub \<longleftrightarrow> (\<exists>b. s = sub @ b)"
  unfolding startsWith_def
  by (metis append_eq_conv_conj append_take_drop_id)

lemma includes_str_iff: "includes_str s sub \<longleftrightarrow> (\<exists>a b. s = a @ sub @ b)"
proof (induction s)
  case Nil
  then show ?case by simp
next
  case (Cons c cs)
  have "(\<exists>a b. c # cs = a @ sub @ b) \<longleftrightarrow>
      (\<exists>b. c # cs = sub @ b) \<or> (\<exists>a b. cs = a @ sub @ b)"
  proof
    assume "\<exists>a b. c # cs = a @ sub @ b"
    then obtain a b where ab: "c # cs = a @ sub @ b" by blast
    show "(\<exists>b. c # cs = sub @ b) \<or> (\<exists>a b. cs = a @ sub @ b)"
    proof (cases a)
      case Nil
      with ab show ?thesis by auto
    next
      case (Cons x xs)
      with ab have "cs = xs @ sub @ b" by simp
      then show ?thesis by blast
    qed
  next
    assume "(\<exists>b. c # cs = sub @ b) \<or> (\<exists>a b. cs = a @ sub @ b)"
    then show "\<exists>a b. c # cs = a @ sub @ b"
    proof
      assume "\<exists>b. c # cs = sub @ b"
      then obtain b where "c # cs = [] @ sub @ b" by auto
      then show ?thesis by blast
    next
      assume "\<exists>a b. cs = a @ sub @ b"
      then obtain a b where "cs = a @ sub @ b" by blast
      then have "c # cs = (c # a) @ sub @ b" by simp
      then show ?thesis by blast
    qed
  qed
  then show ?case using Cons.IH by (simp add: startsWith_iff)
qed

lemma upload_loop_Cons_fail:
  "up k = Some err \<Longrightarrow> fst (snd (upload_loop up store n k (f # fs) p)) = Some err"
  by (simp add: Let_def)

lemma upload_loop_Cons_ok:
  "up k = None \<Longrightarrow>
     fst (snd (upload_loop up store n k (f # fs) p))
     = fst (snd (upload_loop up store n (Suc k) fs
          (p\<lparr>current := k + 1, message := Some ''Reading document...'',
             fileName := Some (''('' @ string_of_nat (k + 1) @ ''/'' @ string_of_nat n
                               @ '') '' @ name f)\<rparr>)))"
  by (simp add: Let_def split: prod.splits)

lemma all_less_Suc_shift:
  "(\<forall>i<Suc m. P (k + i)) \<longleftrightarrow> P k \<and> (\<forall>i<m. P (Suc k + i))"
proof
  assume a: "\<forall>i<Suc m. P (k + i)"
  have "P k" using a by (metis add.right_neutral zero_less_Suc)
  moreover have "\<forall>i<m. P (Suc k + i)"
  proof (intro allI impI)
    fix i assume "i < m"
    then have "Suc i < Suc m" by simp
    with a have "P (k + Suc i)" by blast
    then show "P (Suc k + i)" by simp
  qed
  ultimately show "P k \<and> (\<forall>i<m. P (Suc k + i))" ..
next
  assume a: "P k \<and> (\<forall>i<m. P (Suc k + i))"
  show "\<forall>i<Suc m. P (k + i)"
  proof (intro allI impI)
    fix i assume "i < Suc m"
    then show "P (k + i)" using a by (cases i) auto
  qed
qed

lemma upload_loop_ok_iff:
  "fst (snd (upload_loop up store n k fs p)) = None \<longleftrightarrow> (\<forall>i<length fs. up (k + i) = None)"
proof (induction fs arbitrary: k p)
  case Nil
  then show ?case by simp
next
  case (Cons f fs)
  have shift: "(\<forall>i<Suc (length fs). up (k + i) = None)
               \<longleftrightarrow> up k = None \<and> (\<forall>i<length fs. up (Suc k + i) = None)"
    by (rule all_less_Suc_shift [of "length fs" "\<lambda>x. up x = None" k])
  show ?case
  proof (cases "up k")
    case (Some err)
    have "fst (snd (upload_loop up store n k (f # fs) p)) = Some err"
      using Some by (rule upload_loop_Cons_fail [of up k err])
    with Some shift show ?thesis by simp
  next
    case None
    have "fst (snd (upload_loop up store n k (f # fs) p)) = None
          \<longleftrightarrow> (\<forall>i<length fs. up (Suc k + i) = None)"
      unfolding upload_loop_Cons_ok [of up k, OF None] by (rule Cons.IH)
    with None shift show ?thesis by simp
  qed
qed

lemma upload_loop_first_failure:
  "i < length fs \<Longrightarrow> (\<forall>j<i. up (k + j) = None) \<Longrightarrow> up (k + i) = Some err \<Longrightarrow>
     fst (snd (upload_loop up store n k fs p)) = Some err"
proof (induction fs arbitrary: k p i)
  case Nil
  then show ?case by simp
next
  case (Cons f fs)
  show ?case
  proof (cases i)
    case 0
    with Cons.prems have "up k = Some err" by simp
    then show ?thesis by (rule upload_loop_Cons_fail [of up k err])
  next
    case (Suc i')
    from Cons.prems(2) have "\<forall>j<Suc i'. up (k + j) = None" using Suc by simp
    then have "up k = None \<and> (\<forall>j<i'. up (Suc k + j) = None)"
      using all_less_Suc_shift [of i' "\<lambda>x. up x = None" k] by blast
    then have k_ok: "up k = None" and rest: "\<forall>j<i'. up (Suc k + j) = None"
      by blast+
    have "i' < length fs" using Cons.prems(1) Suc by simp
    moreover have "up (Suc k + i') = Some err"
      using Cons.prems(3) Suc by simp
    ultimately have "fst (snd (upload_loop up store n (Suc k) fs q)) = Some err" for q
      using rest Cons.IH by blast
    then show ?thesis
      unfolding upload_loop_Cons_ok [of up k, OF k_ok] .
  qed
qed

lemma upload_loop_first_failure0:
  assumes "i < length fs" "\<forall>j<i. up j = None" "up i = Some err"
  shows "\<exists>q es. upload_loop up store n 0 fs p = (q, Some err, es)"
proof -
  have "fst (snd (upload_loop up store n 0 fs p)) = Some err"
    using assms upload_loop_first_failure [of i fs up 0 err store n p] by simp
  then show ?thesis
    by (cases "upload_loop up store n 0 fs p") auto
qed

lemma upload_loop_all_ok0:
  assumes "\<forall>i<length fs. up i = None"
  shows "\<exists>q es. upload_loop up store n 0 fs p = (q, None, es)"
proof -
  have "fst (snd (upload_loop up store n 0 fs p)) = None"
    using assms upload_loop_ok_iff [of up store n 0 fs p] by simp
  then show ?thesis
    by (cases "upload_loop up store n 0 fs p") auto
qed

text \<open>What the handler leaves when the attempt throws \<open>err\<close> inside the \<open>try\<close>.\<close>

lemma handleUploadAndStartChat_attempt_fails:
  assumes sel: "isApiKeySelected s" and ne: "files s \<noteq> []"
    and init: "initialize_result env = None"
    and fails: "createRagStore_result env = Inl err
       \<or> (\<exists>store i. createRagStore_result env = Inr store \<and> i < length (files s)
             \<and> (\<forall>j<i. uploadToRagStore_result env j = None)
             \<and> uploadToRagStore_result env i = Some err)"
  shows "st (handleUploadAndStartChat env s)
           = (indexing_catch err (s\<lparr>apiKeyError := None, status := Uploading\<rparr>))
               \<lparr>uploadProgress := None\<rparr>
         \<and> thrown (handleUploadAndStartChat env s) = Some err"
  using fails
proof
  assume "createRagStore_result env = Inl err"
  with sel ne init show ?thesis
    by (simp add: handleUploadAndStartChat_def indexing_try_def Let_def
                  indexing_catch_def handleError_def)
next
  assume "\<exists>store i. createRagStore_result env = Inr store \<and> i < length (files s)
             \<and> (\<forall>j<i. uploadToRagStore_result env j = None)
             \<and> uploadToRagStore_result env i = Some err"
  then obtain store i where cr: "createRagStore_result env = Inr store"
    and i: "i < length (files s)" "\<forall>j<i. uploadToRagStore_result env j = None"
           "uploadToRagStore_result env i = Some err"
    by blast
  let ?p1 = "\<lparr>current = 1, total = length (files s) + 1, message = Some ''Processing...'',
              fileName = None\<rparr>"
  obtain q es where
    loop: "upload_loop (uploadToRagStore_result env) store (length (files s)) 0 (files s) ?p1
           = (q, Some err, es)"
    using upload_loop_first_failure0 [OF i] by blast
  with sel ne init cr show ?thesis
    by (simp add: handleUploadAndStartChat_def indexing_try_def Let_def
                  indexing_catch_def handleError_def)
qed

lemma handleUploadAndStartChat_progress:
  "uploadProgress (st (handleUploadAndStartChat env s))
     = (if isApiKeySelected s \<and> files s \<noteq> [] \<and> initialize_result env = None
        then None else uploadProgress s)"
  by (simp add: handleUploadAndStartChat_def handleError_def Let_def
           split: prod.splits option.splits)

lemma checkApiKey_progress: "uploadProgress (checkApiKey w s) = uploadProgress s"
  by (simp add: checkApiKey_def split: option.splits sum.splits)

lemma handleSendMessage_progress:
  "uploadProgress (st (handleSendMessage r msg s)) = uploadProgress s"
  by (simp add: handleSendMessage_def handleError_def Let_def split: option.splits sum.splits)

lemma dispatch_progress:
  "uploadProgress s = None \<Longrightarrow> uploadProgress (st (dispatch ev s)) = None"
proof (cases ev)
  case (SelectKey w)
  assume "uploadProgress s = None"
  then show ?thesis using SelectKey
    by (simp add: handleSelectKey_def checkApiKey_progress split: option.splits)
next
  case (ConfirmUpload env)
  assume "uploadProgress s = None"
  then show ?thesis using ConfirmUpload
    by (simp add: handleConfirmUpload_def handleUploadAndStartChat_progress)
qed (simp_all add: quiet_def checkApiKey_progress clearError_def handleSendMessage_progress
       handleEndChat_def handleUnload_def)

lemma reachable_progress_idle: "reachable s \<Longrightarrow> uploadProgress s = None"
proof (induction rule: reachable.induct)
  case reachable_init
  show ?case by (simp add: initial_state_def)
next
  case (reachable_step s ev)
  then show ?case by (simp add: step_def commit_def dispatch_progress)
qed

lemma handleUploadAndStartChat_success:
  assumes sel: "isApiKeySelected s" and ne: "files s \<noteq> []"
    and init: "initialize_result env = None"
    and cr: "createRagStore_result env = Inr store"
    and ups: "\<forall>i<length (files s). uploadToRagStore_result env i = None"
  shows "\<exists>es. handleUploadAndStartChat env s =
     \<lparr>st = s\<lparr>apiKeyError := None, uploadProgress := None,
              documentName := computeDocName (files s),
              activeRagStoreName := Some store, chatHistory := [],
              status := Chatting, files := []\<rparr>,
      thrown = None,
      effects = es @ [SetUploadProgress
                        (Some \<lparr>current = length (files s) + 1, total = length (files s) + 1,
                               message = Some ''Ready!'', fileName = Some []\<rparr>),
                      SetUploadProgress None]\<rparr>"
proof -
  let ?p1 = "\<lparr>current = 1, total = length (files s) + 1, message = Some ''Processing...'',
              fileName = None\<rparr>"
  obtain q es where
    loop: "upload_loop (uploadToRagStore_result env) store (length (files s)) 0 (files s) ?p1
           = (q, None, es)"
    using upload_loop_all_ok0 [OF ups] by blast
  let ?pre = "CallInitialize #
      SetUploadProgress (Some \<lparr>current = 0, total = length (files s) + 1,
                                message = Some ''Creating index...'', fileName = None\<rparr>) #
      CallCreateRagStore (''chat-session-'' @ string_of_nat (now env)) #
      SetUploadProgress (Some ?p1) # es"
  have "handleUploadAndStartChat env s =
     \<lparr>st = s\<lparr>apiKeyError := None, uploadProgress := None,
              documentName := computeDocName (files s),
              activeRagStoreName := Some store, chatHistory := [],
              status := Chatting, files := []\<rparr>,
      thrown = None,
      effects = ?pre @ [SetUploadProgress
                        (Some \<lparr>current = length (files s) + 1, total = length (files s) + 1,
                               message = Some ''Ready!'', fileName = Some []\<rparr>),
                      SetUploadProgress None]\<rparr>"
    using sel ne init cr loop
    by (simp add: handleUploadAndStartChat_def indexing_try_def Let_def)
  then show ?thesis by blast
qed

text \<open>
  C10. With the credential selected and no file selected, \<open>handleUploadAndStartChat\<close>
  returns at once: the state is exactly the one it was called in (phase, progress and
  the credential error message \<open>apiKeyError\<close> included, since the return comes before the
  message is reset), nothing is thrown, and no call is made, so no store is created.
\<close>

theorem startIndexing_empty_selection_noop:
  "isApiKeySelected s \<Longrightarrow> files s = [] \<Longrightarrow>
     handleUploadAndStartChat env s = \<lparr>st = s, thrown = None, effects = []\<rparr>"
  by (simp add: handleUploadAndStartChat_def)

theorem startIndexing_empty_selection_noop_witness:
  "st (handleUploadAndStartChat
         \<lparr>now = 0, initialize_result = None, createRagStore_result = Inr ''stores/1'',
          uploadToRagStore_result = (\<lambda>i. None)\<rparr>
         (initial_state\<lparr>status := Welcome, isApiKeySelected := True,
                        apiKeyError := Some ''Please select your Gemini API Key first.''\<rparr>))
   = initial_state\<lparr>status := Welcome, isApiKeySelected := True,
                   apiKeyError := Some ''Please select your Gemini API Key first.''\<rparr>"
proof -
  let ?s = "initial_state\<lparr>status := Welcome, isApiKeySelected := True,
                          apiKeyError := Some ''Please select your Gemini API Key first.''\<rparr>"
  have a: "isApiKeySelected ?s" by simp
  have b: "files ?s = []" by (simp add: initial_state_def)
  show ?thesis
    using startIndexing_empty_selection_noop [OF a b] by simp
qed

text \<open>
  C3. With a credential selected and a non-empty selection, when \<open>createRagStore\<close> or
  the first failing \<open>uploadToRagStore\<close> fails with an error whose lower-cased message
  contains \<open>api key not valid\<close> or \<open>requested entity was not found\<close>, the handler
  un-sets the credential flag, sets the credential-specific message, puts the phase back
  to \<open>Welcome\<close> and changes nothing else: the selected files are the ones it was called
  with. The error is rethrown to the caller.
\<close>

theorem startIndexing_credential_failure:
  assumes "isApiKeySelected s" and "files s \<noteq> []"
    and "initialize_result env = None"
    and "createRagStore_result env = Inl err
       \<or> (\<exists>store i. createRagStore_result env = Inr store \<and> i < length (files s)
             \<and> (\<forall>j<i. uploadToRagStore_result env j = None)
             \<and> uploadToRagStore_result env i = Some err)"
    and "includes_str (toLowerCase (message_of err)) ''api key not valid''
       \<or> includes_str (toLowerCase (message_of err)) ''requested entity was not found''"
  shows "st (handleUploadAndStartChat env s)
           = s\<lparr>isApiKeySelected := False,
               apiKeyError :=
                 Some ''The selected API key is invalid. Please select a different one and try again.'',
               status := Welcome,
               uploadProgress := None\<rparr>
         \<and> files (st (handleUploadAndStartChat env s)) = files s
         \<and> thrown (handleUploadAndStartChat env s) = Some err"
proof -
  have cred: "isCredentialError err"
    using assms(5) by (simp add: isCredentialError_def Let_def)
  have "st (handleUploadAndStartChat env s)
           = (indexing_catch err (s\<lparr>apiKeyError := None, status := Uploading\<rparr>))
               \<lparr>uploadProgress := None\<rparr>"
    and thr: "thrown (handleUploadAndStartChat env s) = Some err"
    using handleUploadAndStartChat_attempt_fails [OF assms(1-4)] by blast+
  then have eq: "st (handleUploadAndStartChat env s)
           = s\<lparr>isApiKeySelected := False,
               apiKeyError :=
                 Some ''The selected API key is invalid. Please select a different one and try again.'',
               status := Welcome,
               uploadProgress := None\<rparr>"
    using cred by (simp add: indexing_catch_def)
  then have "files (st (handleUploadAndStartChat env s)) = files s" by simp
  with eq thr show ?thesis by blast
qed

theorem startIndexing_credential_failure_witness:
  "st (handleUploadAndStartChat
         \<lparr>now = 7, initialize_result = None,
          createRagStore_result = Inl (ErrorObj ''API key not valid. Please pass a valid API key.''),
          uploadToRagStore_result = (\<lambda>i. None)\<rparr>
         (initial_state\<lparr>status := Welcome, isApiKeySelected := True,
                        files := [\<lparr>name = ''a.pdf'', content = ''x''\<rparr>]\<rparr>))
   = initial_state\<lparr>status := Welcome, isApiKeySelected := False,
        apiKeyError :=
          Some ''The selected API key is invalid. Please select a different one and try again.'',
        files := [\<lparr>name = ''a.pdf'', content = ''x''\<rparr>]\<rparr>"
proof -
  let ?env = "\<lparr>now = 7, initialize_result = None,
          createRagStore_result = Inl (ErrorObj ''API key not valid. Please pass a valid API key.''),
          uploadToRagStore_result = (\<lambda>i. None)\<rparr>"
  let ?s = "initial_state\<lparr>status := Welcome, isApiKeySelected := True,
                        files := [\<lparr>name = ''a.pdf'', content = ''x''\<rparr>]\<rparr>"
  have h1: "isApiKeySelected ?s" by simp
  have h2: "files ?s \<noteq> []" by simp
  have h3: "initialize_result ?env = None" by simp
  have h4: "createRagStore_result ?env = Inl (ErrorObj ''API key not valid. Please pass a valid API key.'')
       \<or> (\<exists>store i. createRagStore_result ?env = Inr store \<and> i < length (files ?s)
             \<and> (\<forall>j<i. uploadToRagStore_result ?env j = None)
             \<and> uploadToRagStore_result ?env i
                  = Some (ErrorObj ''API key not valid. Please pass a valid API key.''))"
    by simp
  have h5: "includes_str (toLowerCase (message_of (ErrorObj ''API key not valid. Please pass a valid API key.''))) ''api key not valid''
       \<or> includes_str (toLowerCase (message_of (ErrorObj ''API key not valid. Please pass a valid API key.''))) ''requested entity was not found''"
    by code_simp
  show ?thesis
    using startIndexing_credential_failure [OF h1 h2 h3 h4 h5]
    by (simp add: initial_state_def)
qed

text \<open>
  C5. In a state the page can reach, with a credential selected and \<open>n > 0\<close> files
  selected: when \<open>initialize\<close>, \<open>createRagStore\<close> and all \<open>n\<close> uploads succeed, the last
  progress value set before the indicator is cleared has \<open>current = total = n + 1\<close>,
  nothing is thrown, and afterwards the phase is \<open>Chatting\<close>, the transcript is empty and
  no file is selected. Whatever the collaborators answer (success or any failure), the
  progress indicator is \<open>null\<close> when the handler returns.
\<close>

theorem startIndexing_success_progress:
  assumes "reachable s" and "isApiKeySelected s" and "files s \<noteq> []"
  shows "(initialize_result env = None
          \<and> (\<exists>store. createRagStore_result env = Inr store)
          \<and> (\<forall>i<length (files s). uploadToRagStore_result env i = None)
          \<longrightarrow> (\<exists>es. effects (handleUploadAndStartChat env s)
                      = es @ [SetUploadProgress
                                (Some \<lparr>current = length (files s) + 1,
                                       total = length (files s) + 1,
                                       message = Some ''Ready!'', fileName = Some []\<rparr>),
                              SetUploadProgress None])
              \<and> thrown (handleUploadAndStartChat env s) = None
              \<and> status (st (handleUploadAndStartChat env s)) = Chatting
              \<and> chatHistory (st (handleUploadAndStartChat env s)) = []
              \<and> files (st (handleUploadAndStartChat env s)) = [])
         \<and> uploadProgress (st (handleUploadAndStartChat env s)) = None"
proof -
  have idle: "uploadProgress s = None"
    using assms(1) by (rule reachable_progress_idle)
  have cleared: "uploadProgress (st (handleUploadAndStartChat env s)) = None"
    using idle by (simp add: handleUploadAndStartChat_progress)
  have success: "(\<exists>es. effects (handleUploadAndStartChat env s)
                      = es @ [SetUploadProgress
                                (Some \<lparr>current = length (files s) + 1,
                                       total = length (files s) + 1,
                                       message = Some ''Ready!'', fileName = Some []\<rparr>),
                              SetUploadProgress None])
              \<and> thrown (handleUploadAndStartChat env s) = None
              \<and> status (st (handleUploadAndStartChat env s)) = Chatting
              \<and> chatHistory (st (handleUploadAndStartChat env s)) = []
              \<and> files (st (handleUploadAndStartChat env s)) = []"
    if ok: "initialize_result env = None
          \<and> (\<exists>store. createRagStore_result env = Inr store)
          \<and> (\<forall>i<length (files s). uploadToRagStore_result env i = None)"
  proof -
    from ok obtain store where cr: "createRagStore_result env = Inr store" by blast
    from ok have init: "initialize_result env = None"
      and ups: "\<forall>i<length (files s). uploadToRagStore_result env i = None" by blast+
    obtain es where r: "handleUploadAndStartChat env s =
     \<lparr>st = s\<lparr>apiKeyError := None, uploadProgress := None,
              documentName := computeDocName (files s),
              activeRagStoreName := Some store, chatHistory := [],
              status := Chatting, files := []\<rparr>,
      thrown = None,
      effects = es @ [SetUploadProgress
                        (Some \<lparr>current = length (files s) + 1, total = length (files s) + 1,
                               message = Some ''Ready!'', fileName = Some []\<rparr>),
                      SetUploadProgress None]\<rparr>"
      using handleUploadAndStartChat_success [OF assms(2,3) init cr ups] by blast
    show ?thesis unfolding r by simp
  qed
  from success cleared show ?thesis by blast
qed


theorem startIndexing_success_progress_witness:
  "status (st (handleUploadAndStartChat
      \<lparr>now = 7, initialize_result = None, createRagStore_result = Inr ''stores/1'',
       uploadToRagStore_result = (\<lambda>i. None)\<rparr>
      (step (AddFiles [\<lparr>name = ''a.pdf'', content = ''x''\<rparr>])
         (step (Mount (Some \<lparr>openSelectKey = None, hasSelectedApiKey = Some (Inr True)\<rparr>))
            initial_state)))) = Chatting
   \<and> uploadProgress (st (handleUploadAndStartChat
      \<lparr>now = 7, initialize_result = None, createRagStore_result = Inr ''stores/1'',
       uploadToRagStore_result = (\<lambda>i. None)\<rparr>
      (step (AddFiles [\<lparr>name = ''a.pdf'', content = ''x''\<rparr>])
         (step (Mount (Some \<lparr>openSelectKey = None, hasSelectedApiKey = Some (Inr True)\<rparr>))
            initial_state)))) = None"
proof -
  let ?env = "\<lparr>now = 7, initialize_result = None, createRagStore_result = Inr ''stores/1'',
       uploadToRagStore_result = (\<lambda>i. None)\<rparr>"
  let ?s = "step (AddFiles [\<lparr>name = ''a.pdf'', content = ''x''\<rparr>])
         (step (Mount (Some \<lparr>openSelectKey = None, hasSelectedApiKey = Some (Inr True)\<rparr>))
            initial_state)"
  have h1: "reachable ?s"
    by (intro reachable_step reachable_init)
  have h2: "isApiKeySelected ?s"
    by (simp add: step_def commit_def quiet_def checkApiKey_def lookup_hasSelectedApiKey_def)
  have fs: "files ?s = [\<lparr>name = ''a.pdf'', content = ''x''\<rparr>]"
    by (simp add: step_def commit_def quiet_def checkApiKey_def lookup_hasSelectedApiKey_def
                  initial_state_def)
  then have h3: "files ?s \<noteq> []" by simp
  have ok: "initialize_result ?env = None
          \<and> (\<exists>store. createRagStore_result ?env = Inr store)
          \<and> (\<forall>i<length (files ?s). uploadToRagStore_result ?env i = None)"
    by simp
  show ?thesis
    using startIndexing_success_progress [OF h1 h2 h3, of ?env] ok by blast
qed

text \<open>\<open>string_of_nat\<close> prints the decimal text of its argument.\<close>

lemma digit_char_value: "d < 10 \<Longrightarrow> of_char (digit_char d) = 48 + d"
  by (simp add: digit_char_def)

lemma nat_of_digits_snoc:
  "nat_of_digits (ds @ [c]) = 10 * nat_of_digits ds + (of_char c - 48)"
  by (simp add: nat_of_digits_def)

lemma string_of_nat_roundtrip: "nat_of_digits (string_of_nat n) = n"
proof (induction n rule: string_of_nat.induct)
  case (1 n)
  show ?case
  proof (cases "n < 10")
    case True
    then show ?thesis
      by (simp add: string_of_nat.simps [of n] nat_of_digits_def digit_char_value)
  next
    case False
    then have "nat_of_digits (string_of_nat n)
               = 10 * nat_of_digits (string_of_nat (n div 10)) + (of_char (digit_char (n mod 10)) - 48)"
      by (simp add: string_of_nat.simps [of n] nat_of_digits_snoc)
    also have "\<dots> = 10 * (n div 10) + n mod 10"
      using 1 [OF False] by (simp add: digit_char_value)
    finally show ?thesis by simp
  qed
qed

lemma digit_char_is_digit: "d < 10 \<Longrightarrow> is_digit (digit_char d)"
proof -
  have all: "\<forall>k\<in>set [0..<10]. is_digit (digit_char k)" by code_simp
  assume "d < 10"
  then have "d \<in> set [0..<10]" by simp
  with all show ?thesis by blast
qed

lemma digit_char_nonzero: "0 < d \<Longrightarrow> d < 10 \<Longrightarrow> digit_char d \<noteq> CHR ''0''"
proof -
  have all: "\<forall>k\<in>set [1..<10]. digit_char k \<noteq> CHR ''0''" by code_simp
  assume "0 < d" and "d < 10"
  then have "d \<in> set [1..<10]" by simp
  with all show ?thesis by blast
qed

lemma string_of_nat_nonempty: "string_of_nat n \<noteq> []"
  by (subst string_of_nat.simps) simp

lemma string_of_nat_digits: "list_all is_digit (string_of_nat n)"
proof (induction n rule: string_of_nat.induct)
  case (1 n)
  show ?case
  proof (cases "n < 10")
    case True
    then show ?thesis
      by (simp add: string_of_nat.simps [of n] digit_char_is_digit)
  next
    case False
    have "n mod 10 < 10" by simp
    then have "is_digit (digit_char (n mod 10))" by (rule digit_char_is_digit)
    with False 1 [OF False] show ?thesis
      by (simp add: string_of_nat.simps [of n])
  qed
qed

lemma string_of_nat_no_leading_zero: "0 < n \<Longrightarrow> hd (string_of_nat n) \<noteq> CHR ''0''"
proof (induction n rule: string_of_nat.induct)
  case (1 n)
  show ?case
  proof (cases "n < 10")
    case True
    with "1.prems" show ?thesis
      by (simp add: string_of_nat.simps [of n] digit_char_nonzero)
  next
    case False
    then have pos: "0 < n div 10" by simp
    have "hd (string_of_nat n) = hd (string_of_nat (n div 10))"
      using False string_of_nat_nonempty [of "n div 10"]
      by (simp add: string_of_nat.simps [of n])
    with 1 (1) [OF False pos] show ?thesis by simp
  qed
qed

text \<open>
  C6. When indexing succeeds on \<open>n\<close> files, the display name is the file's name for
  \<open>n = 1\<close>, the two names joined by \<open>" & "\<close> for \<open>n = 2\<close>, and for \<open>n \<ge> 3\<close> the decimal
  numeral of \<open>n\<close> followed by \<open>" documents"\<close>: a run of digits without a leading zero
  whose value is \<open>n\<close>.
\<close>

theorem startIndexing_display_name:
  assumes "isApiKeySelected s" and "files s \<noteq> []"
    and "initialize_result env = None"
    and "createRagStore_result env = Inr store"
    and "\<forall>i<length (files s). uploadToRagStore_result env i = None"
  shows "(length (files s) = 1 \<longrightarrow>
            documentName (st (handleUploadAndStartChat env s)) = name (files s ! 0))
       \<and> (length (files s) = 2 \<longrightarrow>
            documentName (st (handleUploadAndStartChat env s))
              = name (files s ! 0) @ '' & '' @ name (files s ! 1))
       \<and> (3 \<le> length (files s) \<longrightarrow>
            (\<exists>ds. documentName (st (handleUploadAndStartChat env s)) = ds @ '' documents''
                \<and> ds = string_of_nat (length (files s))
                \<and> list_all is_digit ds
                \<and> hd ds \<noteq> CHR ''0''
                \<and> nat_of_digits ds = length (files s)))"
proof -
  obtain es where r: "handleUploadAndStartChat env s =
     \<lparr>st = s\<lparr>apiKeyError := None, uploadProgress := None,
              documentName := computeDocName (files s),
              activeRagStoreName := Some store, chatHistory := [],
              status := Chatting, files := []\<rparr>,
      thrown = None,
      effects = es @ [SetUploadProgress
                        (Some \<lparr>current = length (files s) + 1, total = length (files s) + 1,
                               message = Some ''Ready!'', fileName = Some []\<rparr>),
                      SetUploadProgress None]\<rparr>"
    using handleUploadAndStartChat_success [OF assms] by blast
  have doc: "documentName (st (handleUploadAndStartChat env s)) = computeDocName (files s)"
    unfolding r by simp
  have one: "length (files s) = 1 \<longrightarrow>
            documentName (st (handleUploadAndStartChat env s)) = name (files s ! 0)"
    unfolding doc by (simp add: computeDocName_def)
  have two: "length (files s) = 2 \<longrightarrow>
            documentName (st (handleUploadAndStartChat env s))
              = name (files s ! 0) @ '' & '' @ name (files s ! 1)"
    unfolding doc by (simp add: computeDocName_def)
  have many: "\<exists>ds. documentName (st (handleUploadAndStartChat env s)) = ds @ '' documents''
                \<and> ds = string_of_nat (length (files s))
                \<and> list_all is_digit ds
                \<and> hd ds \<noteq> CHR ''0''
                \<and> nat_of_digits ds = length (files s)"
    if n: "3 \<le> length (files s)"
  proof -
    from n have "documentName (st (handleUploadAndStartChat env s))
                   = string_of_nat (length (files s)) @ '' documents''"
      unfolding doc by (simp add: computeDocName_def)
    moreover have "list_all is_digit (string_of_nat (length (files s)))"
      by (rule string_of_nat_digits)
    moreover have "0 < length (files s)" using n by linarith
    then have "hd (string_of_nat (length (files s))) \<noteq> CHR ''0''"
      by (rule string_of_nat_no_leading_zero)
    moreover have "nat_of_digits (string_of_nat (length (files s))) = length (files s)"
      by (rule string_of_nat_roundtrip)
    ultimately show ?thesis by blast
  qed
  from one two many show ?thesis by blast
qed

theorem startIndexing_display_name_witness:
  "documentName (st (handleUploadAndStartChat
      \<lparr>now = 7, initialize_result = None, createRagStore_result = Inr ''stores/1'',
       uploadToRagStore_result = (\<lambda>i. None)\<rparr>
      (initial_state\<lparr>status := Welcome, isApiKeySelected := True,
         files := replicate 12 \<lparr>name = ''a.pdf'', content = ''x''\<rparr>\<rparr>)))
   = ''12 documents''"
proof -
  let ?env = "\<lparr>now = 7, initialize_result = None, createRagStore_result = Inr ''stores/1'',
       uploadToRagStore_result = (\<lambda>i. None)\<rparr>"
  let ?s = "initial_state\<lparr>status := Welcome, isApiKeySelected := True,
         files := replicate 12 \<lparr>name = ''a.pdf'', content = ''x''\<rparr>\<rparr>"
  have h1: "isApiKeySelected ?s" by simp
  have h2: "files ?s \<noteq> []" by simp
  have h3: "initialize_result ?env = None" by simp
  have h4: "createRagStore_result ?env = Inr ''stores/1''" by simp
  have h5: "\<forall>i<length (files ?s). uploadToRagStore_result ?env i = None" by simp
  have many: "3 \<le> length (files ?s)" by simp
  have twelve: "string_of_nat (length (files ?s)) = ''12''" by code_simp
  have "\<exists>ds. documentName (st (handleUploadAndStartChat ?env ?s)) = ds @ '' documents''
                \<and> ds = string_of_nat (length (files ?s))
                \<and> list_all is_digit ds
                \<and> hd ds \<noteq> CHR ''0''
                \<and> nat_of_digits ds = length (files ?s)"
    using startIndexing_display_name [OF h1 h2 h3 h4 h5] many by blast
  then have "documentName (st (handleUploadAndStartChat ?env ?s))
          = string_of_nat (length (files ?s)) @ '' documents''"
    by blast
  then show ?thesis
    unfolding twelve by simp
qed

section \<open>What the handlers throw\<close>




section \<open>A failed query\<close>

text \<open>What a failed query leaves, for any store, message and error: the user turn and the
  fixed apology are appended, and \<open>handleError\<close> moves the phase to \<open>Error\<close>.\<close>

lemma handleSendMessage_query_fails:
  assumes "activeRagStoreName s = Some store" and "store \<noteq> []"
  shows "st (handleSendMessage (Inl err) msg s)
         = s\<lparr>chatHistory := chatHistory s @
                [\<lparr>role = User, parts = [msg], groundingChunks = None\<rparr>,
                 \<lparr>role = Model, parts = [apology], groundingChunks = None\<rparr>],
              error := Some (''Failed to get response'' @
                             (if truthy err then '': '' @ message_of err else [])),
              status := Error,
              isQueryLoading := False\<rparr>"
  using assms by (simp add: handleSendMessage_def handleError_def Let_def)

text \<open>After a failed query the error screen leads back to the welcome screen with the
  store handle still set; a new session then overwrites it, and the first store is never
  asked to be deleted.\<close>

lemma failed_query_then_new_session_leaks_store:
  "filter is_delete
     (snd (run_events
        [SendMessage (Inl (ErrorObj ''boom'')) ''hello'',
         ClearError,
         AddFiles [\<lparr>name = ''b.txt'', content = ''y''\<rparr>],
         ConfirmUpload \<lparr>now = 8, initialize_result = None,
                        createRagStore_result = Inr ''stores/2'',
                        uploadToRagStore_result = (\<lambda>i. None)\<rparr>,
         EndChat None,
         Unload None]
        (initial_state\<lparr>status := Chatting, isApiKeySelected := True,
                       activeRagStoreName := Some ''stores/1'',
                       ragStoreNameRef := Some ''stores/1'',
                       documentName := ''a.pdf''\<rparr>)))
   = [CallDeleteRagStore ''stores/2'']"
  by code_simp

text \<open>
  C1. A chat turn sent in phase \<open>Chatting\<close> with store \<open>stores/1\<close> active, whose query
  fails with \<open>Error("boom")\<close>: the transcript gains the user turn and one model turn with
  the fixed apology, but the phase becomes \<open>Error\<close>, not \<open>Chatting\<close>.
\<close>

theorem sendMessage_query_failure_shows_error_screen:
  "status (st (handleSendMessage (Inl (ErrorObj ''boom'')) ''hello''
      (initial_state\<lparr>status := Chatting, isApiKeySelected := True,
                     activeRagStoreName := Some ''stores/1'',
                     ragStoreNameRef := Some ''stores/1'',
                     documentName := ''a.pdf''\<rparr>))) = Error
   \<and> chatHistory (st (handleSendMessage (Inl (ErrorObj ''boom'')) ''hello''
      (initial_state\<lparr>status := Chatting, isApiKeySelected := True,
                     activeRagStoreName := Some ''stores/1'',
                     ragStoreNameRef := Some ''stores/1'',
                     documentName := ''a.pdf''\<rparr>)))
     = [\<lparr>role = User, parts = [''hello''], groundingChunks = None\<rparr>,
        \<lparr>role = Model, parts = [''Sorry, I encountered an error. Please try again.''],
         groundingChunks = None\<rparr>]
   \<and> error (st (handleSendMessage (Inl (ErrorObj ''boom'')) ''hello''
      (initial_state\<lparr>status := Chatting, isApiKeySelected := True,
                     activeRagStoreName := Some ''stores/1'',
                     ragStoreNameRef := Some ''stores/1'',
                     documentName := ''a.pdf''\<rparr>)))
     = Some ''Failed to get response: boom''"
  by (simp add: handleSendMessage_def handleError_def apology_def initial_state_def Let_def)

section \<open>Deleting the store\<close>





text \<open>The state left by a successful indexing attempt holds the new handle in both cells.\<close>

lemma chatting_state_holds_handle:
  assumes "isApiKeySelected s" and "files s \<noteq> []"
    and "initialize_result env = None"
    and "createRagStore_result env = Inr store"
    and "\<forall>i<length (files s). uploadToRagStore_result env i = None"
  shows "status (step (ConfirmUpload env) s) = Chatting
       \<and> activeRagStoreName (step (ConfirmUpload env) s) = Some store
       \<and> ragStoreNameRef (step (ConfirmUpload env) s) = Some store"
proof -
  obtain es where r: "handleUploadAndStartChat env s =
     \<lparr>st = s\<lparr>apiKeyError := None, uploadProgress := None,
              documentName := computeDocName (files s),
              activeRagStoreName := Some store, chatHistory := [],
              status := Chatting, files := []\<rparr>,
      thrown = None,
      effects = es @ [SetUploadProgress
                        (Some \<lparr>current = length (files s) + 1, total = length (files s) + 1,
                               message = Some ''Ready!'', fileName = Some []\<rparr>),
                      SetUploadProgress None]\<rparr>"
    using handleUploadAndStartChat_success [OF assms] by blast
  show ?thesis
    by (simp add: step_def commit_def handleConfirmUpload_def r)
qed




section \<open>The renderer: inline substitution\<close>

lemma startsWith_head:
  "startsWith s (m # d) \<Longrightarrow> \<exists>cs. s = m # cs"
  by (cases s) (simp_all add: startsWith_def)

lemma delimited_head:
  "delimited (m # d) s = Some r \<Longrightarrow> \<exists>cs. s = m # cs"
  using startsWith_head by (fastforce simp: delimited_def split: if_splits)

lemma match_at_head_marker:
  assumes "match_at p s = Some r"
  shows "\<exists>c cs. s = c # cs \<and> is_marker c"
proof (cases p)
  case Bold
  with assms have "delimited ''**'' s = Some r \<or> delimited ''__'' s = Some r"
    by (auto split: option.splits)
  then show ?thesis
    using delimited_head by (fastforce simp: is_marker_def)
next
  case Emphasis
  with assms have "delimited ''*'' s = Some r \<or> delimited ''_'' s = Some r"
    by (auto split: option.splits)
  then show ?thesis
    using delimited_head by (fastforce simp: is_marker_def)
next
  case InlineCode
  with assms show ?thesis
    by (auto simp: is_marker_def Let_def split: list.splits if_splits)
qed

lemma replace_global_plain:
  "\<forall>c\<in>set s. \<not> is_marker c \<Longrightarrow> replace_global p s = s"
proof (induction s)
  case Nil
  show ?case by simp
next
  case (Cons c cs)
  have "match_at p (c # cs) = None"
  proof (rule ccontr)
    assume "match_at p (c # cs) \<noteq> None"
    then obtain r where "match_at p (c # cs) = Some r" by auto
    then have "is_marker c" using match_at_head_marker by fastforce
    with Cons.prems show False by simp
  qed
  moreover have "replace_global p cs = cs"
    using Cons by simp
  ultimately show ?case by simp
qed

lemma inline_subst_plain:
  "\<forall>c\<in>set s. \<not> is_marker c \<Longrightarrow> inline_subst s = s"
  by (simp add: inline_subst_def replace_global_plain)

lemma lazy_until_closing_bold:
  "\<forall>c\<in>set x. c \<noteq> CHR ''*'' \<and> \<not> is_line_terminator c \<Longrightarrow>
     lazy_until ''**'' (x @ ''**'') = Some (x, [])"
proof (induction x)
  case Nil
  show ?case by (simp add: startsWith_def)
next
  case (Cons c x)
  then have "c \<noteq> CHR ''*''" and "\<not> is_line_terminator c"
    and "lazy_until ''**'' (x @ ''**'') = Some (x, [])" by simp_all
  then show ?case by (simp add: startsWith_def)
qed

lemma replace_global_bold_span:
  assumes "\<forall>c\<in>set x. c \<noteq> CHR ''*'' \<and> \<not> is_line_terminator c"
  shows "replace_global Bold (''**'' @ x @ ''**'') = ''<strong>'' @ x @ ''</strong>''"
proof -
  have "delimited ''**'' (''**'' @ x @ ''**'') = Some (x, [])"
    using lazy_until_closing_bold [OF assms] by (simp add: delimited_def startsWith_def)
  then have "match_at Bold (CHR ''*'' # CHR ''*'' # x @ ''**'') = Some (x, [])"
    by simp
  then show ?thesis by simp
qed

text \<open>Applied to the raw text, the emphasis pattern would take each double marker for an
  empty emphasis span.\<close>

lemma emphasis_first_splits_double_marker:
  "replace_global Emphasis ''**x**'' = ''<em></em>x<em></em>''"
  by code_simp















lemma plain_text_code_tags:
  "plain_text (''<code class='' @ [CHR 0x22]
     @ ''bg-gem-mist/50 px-1 py-0.5 rounded-sm font-mono text-sm text-gem-offwhite''
     @ [CHR 0x22] @ ''>'')"
  "plain_text ''</code>''"
  by (simp_all add: plain_text_def is_marker_def)










section \<open>The renderer: blocks\<close>

lemma space_not_marker: "is_space c \<Longrightarrow> \<not> is_marker c"
  by (auto simp: is_space_def is_marker_def)

lemma blank_line_facts:
  assumes "is_blank b"
  shows "inline_subst b = b" and "match_ol b = None" and "match_ul b = None"
proof -
  from assms have all: "\<forall>c\<in>set b. is_space c"
    by (simp add: is_blank_def list_all_iff)
  then show "inline_subst b = b"
    using space_not_marker by (intro inline_subst_plain) blast
  from all have dw: "dropWhile is_space b = []" by simp
  show "match_ol b = None" and "match_ul b = None"
    unfolding match_ol_def match_ul_def dw by simp_all
qed

text \<open>A blank line: list closed first, then the paragraph flushed.\<close>

lemma processLine_blank:
  "is_blank b \<Longrightarrow> processLine s b = flushPara (flushList s)"
  by (simp add: processLine_def blank_line_facts)

text \<open>A line that is neither a list item nor blank goes to the paragraph buffer.\<close>

lemma processLine_paragraph_line:
  assumes "match_ol (inline_subst l) = None" and "match_ul (inline_subst l) = None"
    and "\<not> is_blank (inline_subst l)"
  shows "processLine s l =
           (flushList s)\<lparr>paraBuffer := paraBuffer s
              @ (if paraBuffer s \<noteq> [] then ''<br/>'' else []) @ inline_subst l\<rparr>"
  using assms by (simp add: processLine_def Let_def flushList_def split: option.splits)

lemma processLine_plain_line:
  assumes "paragraph_line l" and "listType s = None"
  shows "processLine s l =
           s\<lparr>paraBuffer := paraBuffer s @ (if paraBuffer s \<noteq> [] then ''<br/>'' else []) @ l\<rparr>"
proof -
  from assms(1) have same: "inline_subst l = l"
    by (simp add: paragraph_line_def inline_subst_plain)
  with assms(1) have "match_ol (inline_subst l) = None" "match_ul (inline_subst l) = None"
    "\<not> is_blank (inline_subst l)"
    by (simp_all add: paragraph_line_def)
  then have "processLine s l =
           (flushList s)\<lparr>paraBuffer := paraBuffer s
              @ (if paraBuffer s \<noteq> [] then ''<br/>'' else []) @ inline_subst l\<rparr>"
    by (rule processLine_paragraph_line)
  with same assms(2) show ?thesis by (simp add: flushList_def)
qed

lemma paragraph_line_nonempty: "paragraph_line l \<Longrightarrow> l \<noteq> []"
  by (auto simp: paragraph_line_def is_blank_def)

lemma foldl_processLine_paragraph:
  "ls \<noteq> [] \<Longrightarrow> \<forall>l\<in>set ls. paragraph_line l \<Longrightarrow> listType s = None \<Longrightarrow>
     foldl processLine s ls =
       s\<lparr>paraBuffer := (if paraBuffer s \<noteq> [] then paraBuffer s @ ''<br/>'' else [])
                          @ join_with ''<br/>'' ls\<rparr>"
proof (induction ls arbitrary: s)
  case Nil
  then show ?case by simp
next
  case (Cons l ls)
  have pl: "paragraph_line l" using Cons.prems(2) by simp
  have one: "processLine s l =
           s\<lparr>paraBuffer := paraBuffer s @ (if paraBuffer s \<noteq> [] then ''<br/>'' else []) @ l\<rparr>"
    using pl Cons.prems(3) by (rule processLine_plain_line)
  show ?case
  proof (cases ls)
    case Nil
    with one show ?thesis by simp
  next
    case (Cons m ms)
    let ?s1 = "processLine s l"
    have ne: "paraBuffer ?s1 \<noteq> []"
      using one paragraph_line_nonempty [OF pl] by simp
    have lt: "listType ?s1 = None" using one Cons.prems(3) by simp
    have "foldl processLine ?s1 ls =
       ?s1\<lparr>paraBuffer := (if paraBuffer ?s1 \<noteq> [] then paraBuffer ?s1 @ ''<br/>'' else [])
                          @ join_with ''<br/>'' ls\<rparr>"
      using Cons.IH [of ?s1] Cons Cons.prems(2) lt by simp
    then show ?thesis
      using ne one Cons by simp
  qed
qed

lemma split_lines_nonempty: "split_lines t \<noteq> []"
  by (induction t) (auto split: list.splits)

lemma join_with_nonempty: "ls \<noteq> [] \<Longrightarrow> \<forall>l\<in>set ls. l \<noteq> [] \<Longrightarrow> join_with sep ls \<noteq> []"
  by (induction sep ls rule: join_with.induct) auto

lemma renderMarkdown_single_paragraph:
  assumes "\<forall>l\<in>set (split_lines t). paragraph_line l"
  shows "renderMarkdown t = p_open @ join_with ''<br/>'' (split_lines t) @ ''</p>''"
proof -
  have t: "t \<noteq> []"
  proof
    assume "t = []"
    then have "paragraph_line []" using assms by simp
    then show False using paragraph_line_nonempty by blast
  qed
  have fold: "foldl processLine render_start (split_lines t) =
       render_start\<lparr>paraBuffer := join_with ''<br/>'' (split_lines t)\<rparr>"
    using foldl_processLine_paragraph [OF split_lines_nonempty assms, of render_start]
    by (simp add: render_start_def)
  have "join_with ''<br/>'' (split_lines t) \<noteq> []"
    using split_lines_nonempty assms paragraph_line_nonempty
    by (intro join_with_nonempty) auto
  then show ?thesis
    unfolding renderMarkdown_def fold
    using t by (simp add: flushPara_def flushList_def render_start_def)
qed

lemma join_with_snoc:
  "join_with sep (cur @ [l]) = (if cur = [] then l else join_with sep cur @ sep @ l)"
  by (induction sep cur rule: join_with.induct) auto

lemma join_with_empty_iff:
  "\<forall>l\<in>set ls. l \<noteq> [] \<Longrightarrow> join_with sep ls = [] \<longleftrightarrow> ls = []"
  using join_with_nonempty [of ls sep] by auto

lemma flushList_closed: "listType s = None \<Longrightarrow> flushList s = s"
  by (simp add: flushList_def)

text \<open>The loop over lines that are blank or running text, started with the run \<open>cur\<close> in
  the paragraph buffer.\<close>

lemma foldl_processLine_runs:
  assumes "\<forall>l\<in>set ls. is_blank l \<or> paragraph_line l"
    and "listType s = None"
    and "paraBuffer s = join_with ''<br/>'' cur"
    and "\<forall>l\<in>set cur. l \<noteq> []"
  shows "html (flushList (flushPara (foldl processLine s ls)))
         = html s @ concat (map para_block (para_runs cur ls))"
  using assms
proof (induction ls arbitrary: s cur)
  case Nil
  have "paraBuffer s = [] \<longleftrightarrow> cur = []"
    using Nil.prems(3,4) join_with_empty_iff by simp
  then show ?case
    using Nil.prems(2,3) by (simp add: flushPara_def flushList_def para_block_def)
next
  case (Cons l ls)
  have rest: "\<forall>l\<in>set ls. is_blank l \<or> paragraph_line l"
    using Cons.prems(1) by simp
  have empty: "paraBuffer s = [] \<longleftrightarrow> cur = []"
    using Cons.prems(3,4) join_with_empty_iff by simp
  show ?case
  proof (cases "is_blank l")
    case True
    let ?s1 = "processLine s l"
    have s1: "?s1 = flushPara s"
      using True Cons.prems(2) by (simp add: processLine_blank flushList_closed)
    have a: "listType ?s1 = None"
      using Cons.prems(2) by (simp add: s1 flushPara_def)
    have b: "paraBuffer ?s1 = join_with ''<br/>'' []"
      by (simp add: s1 flushPara_def)
    have c: "html ?s1 = html s @ (if cur = [] then [] else para_block cur)"
      using empty Cons.prems(3) by (simp add: s1 flushPara_def para_block_def)
    have "html (flushList (flushPara (foldl processLine ?s1 ls)))
          = html ?s1 @ concat (map para_block (para_runs [] ls))"
      using rest a b by (intro Cons.IH) simp_all
    then show ?thesis
      using True c by simp
  next
    case False
    with Cons.prems(1) have pl: "paragraph_line l" by simp
    let ?s1 = "processLine s l"
    have s1: "?s1 = s\<lparr>paraBuffer := paraBuffer s
                 @ (if paraBuffer s \<noteq> [] then ''<br/>'' else []) @ l\<rparr>"
      using pl Cons.prems(2) by (rule processLine_plain_line)
    have a: "listType ?s1 = None"
      using Cons.prems(2) by (simp add: s1)
    have b: "paraBuffer ?s1 = join_with ''<br/>'' (cur @ [l])"
      using empty Cons.prems(3) by (simp add: s1 join_with_snoc)
    have c: "\<forall>k\<in>set (cur @ [l]). k \<noteq> []"
      using Cons.prems(4) paragraph_line_nonempty [OF pl] by simp
    have d: "html ?s1 = html s" by (simp add: s1)
    have "html (flushList (flushPara (foldl processLine ?s1 ls)))
          = html ?s1 @ concat (map para_block (para_runs (cur @ [l]) ls))"
      using rest a b c by (rule Cons.IH)
    then show ?thesis
      using False d by simp
  qed
qed

lemma renderMarkdown_runs:
  assumes "\<forall>l\<in>set (split_lines t). is_blank l \<or> paragraph_line l"
  shows "renderMarkdown t = concat (map para_block (para_runs [] (split_lines t)))"
proof (cases "t = []")
  case True
  then show ?thesis
    by (simp add: renderMarkdown_def is_blank_def)
next
  case False
  have "html (flushList (flushPara (foldl processLine render_start (split_lines t))))
        = html render_start @ concat (map para_block (para_runs [] (split_lines t)))"
    using assms by (intro foldl_processLine_runs) (simp_all add: render_start_def)
  with False show ?thesis
    by (simp add: renderMarkdown_def render_start_def)
qed

text \<open>While a list block is open the paragraph buffer is empty.\<close>

lemma processLine_open_list_empty_buffer:
  "listType (processLine s l) = Some ty \<Longrightarrow> paraBuffer (processLine s l) = []"
  by (auto simp: processLine_def Let_def flushPara_def flushList_def
           split: option.splits if_splits)

lemma loop_open_list_empty_buffer:
  "listType (foldl processLine render_start ls) = Some ty \<Longrightarrow>
     paraBuffer (foldl processLine render_start ls) = []"
proof (cases ls rule: rev_cases)
  case Nil
  then show ?thesis by (simp add: render_start_def)
next
  case (snoc ks l)
  assume "listType (foldl processLine render_start ls) = Some ty"
  with snoc show ?thesis
    using processLine_open_list_empty_buffer by simp
qed

text \<open>
  C7, as stated, fails: a text without any markup character can hold a blank line, and
  then it is rendered as two paragraph blocks, not one.
\<close>

theorem renderMarkdown_two_paragraphs_counterexample:
  "renderMarkdown (''a'' @ [CHR 0x0A, CHR 0x0A] @ ''b'') = p_open @ ''a</p>'' @ p_open @ ''b</p>''"
  by code_simp

text \<open>
  C7, amended. (1) A text whose lines are each blank or plain running text (no \<open>*\<close>,
  \<open>_\<close> or backquote, not a list item) renders as one paragraph block per maximal run of
  consecutive non-blank lines, each block holding its lines joined by \<open><br/>\<close>; so a
  text of running-text lines only renders as exactly one paragraph block, and the empty
  text as nothing. (2) The two lines \<open>1. foo\<close> and \<open>2. bar\<close> render as one ordered-list
  block with the two items; with a blank line and \<open>bar\<close> after \<open>1. foo\<close>, the list block
  is closed before the paragraph. (3) With a list block open, a blank line closes it and
  flushes the paragraph buffer, leaving no list and an empty buffer, so that a following
  line that is neither a list item nor blank starts a new paragraph holding just that
  line; in every state the loop reaches the buffer is empty while a list is open, and the
  blank line then does nothing but close the list.
\<close>

theorem renderMarkdown_blocks:
  "((\<forall>l\<in>set (split_lines t). is_blank l \<or> paragraph_line l)
      \<longrightarrow> renderMarkdown t = concat (map para_block (para_runs [] (split_lines t))))
   \<and> ((\<forall>l\<in>set (split_lines t). paragraph_line l)
      \<longrightarrow> renderMarkdown t = p_open @ join_with ''<br/>'' (split_lines t) @ ''</p>'')
   \<and> renderMarkdown [] = []
   \<and> renderMarkdown (''1. foo'' @ [CHR 0x0A] @ ''2. bar'')
       = ol_open @ ''<li>foo</li><li>bar</li></ol>''
   \<and> renderMarkdown (''1. foo'' @ [CHR 0x0A, CHR 0x0A] @ ''bar'')
       = ol_open @ ''<li>foo</li></ol>'' @ p_open @ ''bar</p>''
   \<and> (listType s = Some ty \<and> is_blank b
        \<and> match_ol (inline_subst l) = None \<and> match_ul (inline_subst l) = None
        \<and> \<not> is_blank (inline_subst l)
      \<longrightarrow> listType (processLine s b) = None
          \<and> paraBuffer (processLine s b) = []
          \<and> html (processLine s b)
              = html s @ ''</'' @ tag_name ty @ ''>''
                @ (if paraBuffer s \<noteq> [] then p_open @ paraBuffer s @ ''</p>'' else [])
          \<and> processLine (processLine s b) l
              = (processLine s b)\<lparr>paraBuffer := inline_subst l\<rparr>)
   \<and> (listType (foldl processLine render_start ls) = Some ty \<and> is_blank b
      \<longrightarrow> processLine (foldl processLine render_start ls) b
          = (foldl processLine render_start ls)
              \<lparr>html := html (foldl processLine render_start ls) @ ''</'' @ tag_name ty @ ''>'',
               listType := None\<rparr>)"
proof -
  have runs: "(\<forall>l\<in>set (split_lines t). is_blank l \<or> paragraph_line l)
      \<longrightarrow> renderMarkdown t = concat (map para_block (para_runs [] (split_lines t)))"
    using renderMarkdown_runs by blast
  have para: "(\<forall>l\<in>set (split_lines t). paragraph_line l)
      \<longrightarrow> renderMarkdown t = p_open @ join_with ''<br/>'' (split_lines t) @ ''</p>''"
    using renderMarkdown_single_paragraph by blast
  have empty: "renderMarkdown [] = []"
    by (simp add: renderMarkdown_def)
  have ol: "renderMarkdown (''1. foo'' @ [CHR 0x0A] @ ''2. bar'')
       = ol_open @ ''<li>foo</li><li>bar</li></ol>''"
    by code_simp
  have ol_then_para: "renderMarkdown (''1. foo'' @ [CHR 0x0A, CHR 0x0A] @ ''bar'')
       = ol_open @ ''<li>foo</li></ol>'' @ p_open @ ''bar</p>''"
    by code_simp
  have blank: "listType (processLine s b) = None
          \<and> paraBuffer (processLine s b) = []
          \<and> html (processLine s b)
              = html s @ ''</'' @ tag_name ty @ ''>''
                @ (if paraBuffer s \<noteq> [] then p_open @ paraBuffer s @ ''</p>'' else [])
          \<and> processLine (processLine s b) l
              = (processLine s b)\<lparr>paraBuffer := inline_subst l\<rparr>"
    if h: "listType s = Some ty \<and> is_blank b
        \<and> match_ol (inline_subst l) = None \<and> match_ul (inline_subst l) = None
        \<and> \<not> is_blank (inline_subst l)"
  proof -
    from h have b: "processLine s b = flushPara (flushList s)"
      by (simp add: processLine_blank)
    from h have closed: "flushList s = s\<lparr>html := html s @ ''</'' @ tag_name ty @ ''>'',
                                        listType := None\<rparr>"
      by (simp add: flushList_def)
    have l1: "listType (processLine s b) = None"
      and l2: "paraBuffer (processLine s b) = []"
      and l3: "html (processLine s b)
              = html s @ ''</'' @ tag_name ty @ ''>''
                @ (if paraBuffer s \<noteq> [] then p_open @ paraBuffer s @ ''</p>'' else [])"
      unfolding b closed by (simp_all add: flushPara_def)
    from h have "processLine (processLine s b) l =
           (flushList (processLine s b))\<lparr>paraBuffer := paraBuffer (processLine s b)
              @ (if paraBuffer (processLine s b) \<noteq> [] then ''<br/>'' else [])
              @ inline_subst l\<rparr>"
      by (intro processLine_paragraph_line) simp_all
    then have l4: "processLine (processLine s b) l
              = (processLine s b)\<lparr>paraBuffer := inline_subst l\<rparr>"
      using l1 l2 by (simp add: flushList_def)
    from l1 l2 l3 l4 show ?thesis by blast
  qed
  have loop: "processLine (foldl processLine render_start ls) b
          = (foldl processLine render_start ls)
              \<lparr>html := html (foldl processLine render_start ls) @ ''</'' @ tag_name ty @ ''>'',
               listType := None\<rparr>"
    if h: "listType (foldl processLine render_start ls) = Some ty \<and> is_blank b"
  proof -
    let ?s = "foldl processLine render_start ls"
    from h have buf: "paraBuffer ?s = []"
      using loop_open_list_empty_buffer by blast
    from h have "processLine ?s b = flushPara (flushList ?s)"
      by (simp add: processLine_blank)
    with h buf show ?thesis
      by (simp add: flushList_def flushPara_def)
  qed
  from runs para empty ol ol_then_para blank loop show ?thesis by blast
qed

theorem renderMarkdown_blocks_witness:
  "renderMarkdown (''hello'' @ [CHR 0x0A] @ ''world'' @ [CHR 0x0A, CHR 0x0A] @ ''bye'')
     = p_open @ ''hello<br/>world</p>'' @ p_open @ ''bye</p>''
   \<and> renderMarkdown (''hello'' @ [CHR 0x0A] @ ''world'') = p_open @ ''hello<br/>world</p>''
   \<and> processLine
        (processLine \<lparr>html = ol_open @ ''<li>a</li>'', listType = Some OL, paraBuffer = []\<rparr> [])
        ''text''
       = \<lparr>html = ol_open @ ''<li>a</li></ol>'', listType = None, paraBuffer = ''text''\<rparr>
   \<and> processLine (foldl processLine render_start [''- a'']) []
       = \<lparr>html = ul_open @ ''<li>a</li></ul>'', listType = None, paraBuffer = []\<rparr>"
proof -
  let ?t3 = "''hello'' @ [CHR 0x0A] @ ''world'' @ [CHR 0x0A, CHR 0x0A] @ ''bye''"
  let ?t = "''hello'' @ [CHR 0x0A] @ ''world''"
  let ?s = "\<lparr>html = ol_open @ ''<li>a</li>'', listType = Some OL, paraBuffer = []\<rparr>"
  have lines3: "split_lines ?t3 = [''hello'', ''world'', [], ''bye'']" by code_simp
  have runs3: "para_runs [] [''hello'', ''world'', [], ''bye''] = [[''hello'', ''world''], [''bye'']]"
    by code_simp
  have h0: "\<forall>l\<in>set (split_lines ?t3). is_blank l \<or> paragraph_line l" by code_simp
  have lines: "split_lines ?t = [''hello'', ''world'']" by code_simp
  have h1: "\<forall>l\<in>set (split_lines ?t). paragraph_line l" by code_simp
  have it: "inline_subst ''text'' = ''text''" by code_simp
  have h3: "listType ?s = Some OL \<and> is_blank []
        \<and> match_ol (inline_subst ''text'') = None \<and> match_ul (inline_subst ''text'') = None
        \<and> \<not> is_blank (inline_subst ''text'')"
    by code_simp
  have st: "foldl processLine render_start [''- a'']
            = \<lparr>html = ul_open @ ''<li>a</li>'', listType = Some UL, paraBuffer = []\<rparr>"
    by code_simp
  have h4: "listType (foldl processLine render_start [''- a'']) = Some UL \<and> is_blank []"
    unfolding st by (simp add: is_blank_def)
  have "renderMarkdown ?t3 = concat (map para_block (para_runs [] (split_lines ?t3)))"
    using renderMarkdown_blocks [of ?t3] h0 by blast
  then have a: "renderMarkdown ?t3 = p_open @ ''hello<br/>world</p>'' @ p_open @ ''bye</p>''"
    unfolding lines3 runs3 by (simp add: para_block_def)
  have "renderMarkdown ?t = p_open @ join_with ''<br/>'' (split_lines ?t) @ ''</p>''"
    using renderMarkdown_blocks [of ?t] h1 by blast
  then have b: "renderMarkdown ?t = p_open @ ''hello<br/>world</p>''"
    unfolding lines by simp
  have "processLine (processLine ?s []) ''text''
              = (processLine ?s [])\<lparr>paraBuffer := inline_subst ''text''\<rparr>
        \<and> listType (processLine ?s []) = None
        \<and> html (processLine ?s [])
              = html ?s @ ''</'' @ tag_name OL @ ''>''
                @ (if paraBuffer ?s \<noteq> [] then p_open @ paraBuffer ?s @ ''</p>'' else [])"
    using renderMarkdown_blocks [of _ ?s OL "[]" "''text''"] h3 by blast
  then have c: "processLine (processLine ?s []) ''text''
       = \<lparr>html = ol_open @ ''<li>a</li></ol>'', listType = None, paraBuffer = ''text''\<rparr>"
    unfolding it by (cases "processLine ?s []") simp
  have "processLine (foldl processLine render_start [''- a'']) []
          = (foldl processLine render_start [''- a''])
              \<lparr>html := html (foldl processLine render_start [''- a'']) @ ''</'' @ tag_name UL @ ''>'',
               listType := None\<rparr>"
    using renderMarkdown_blocks [where ls = "[''- a'']" and ty = UL and b = "[]"] h4 by blast
  then have d: "processLine (foldl processLine render_start [''- a'']) []
       = \<lparr>html = ul_open @ ''<li>a</li></ul>'', listType = None, paraBuffer = []\<rparr>"
    unfolding st by simp
  from a b c d show ?thesis by blast
qed

end
